theory Spec2Isabelle
  imports Main "HOL-Library.Word"
begin

section \<open>Tokens (struct DefSyntaxToken)\<close>

text \<open>
  The enumeration \<^verbatim>\<open>DefSyntaxToken::Type\<close> and the struct around it. The fields
  \<^verbatim>\<open>type\<close> and \<^verbatim>\<open>value\<close> of the source are \<open>tok_type\<close> and \<open>tok_value\<close> here;
  \<^verbatim>\<open>std::string\<close> is a list of bytes.
\<close>

datatype TokenType = Nothing | Whitespace | BracedBlock | Token | EolComment | BlockComment

record DefSyntaxToken =
  tok_type :: TokenType
  tok_value :: string

text \<open>\<^verbatim>\<open>DefSyntaxToken::clear()\<close>: the state every tokeniser call starts from.\<close>

definition clear :: DefSyntaxToken where
  "clear = \<lparr>tok_type = Nothing, tok_value = []\<rparr>"

section \<open>Failures\<close>

text \<open>
  What the C++ can do instead of returning: a failing \<^verbatim>\<open>assert\<close>, an iterator moved
  past the end marker, a null \<^verbatim>\<open>shared_ptr\<close> dereferenced, \<^verbatim>\<open>vector::at\<close> out of
  range, a member of a subclass reached through a \<^verbatim>\<open>static_pointer_cast\<close> to the wrong
  class, and \<^verbatim>\<open>std::logic_error\<close> thrown by the declaration manager. Assertions are
  checked, as in a build without \<^verbatim>\<open>NDEBUG\<close>.
\<close>

datatype error =
    AssertionFailed
  | IteratorPastEnd
  | NullPointerDereference
  | OutOfRange
  | BadCast
  | LogicError string

section \<open>The tokeniser function (DefBlockSyntaxTokeniserFunc)\<close>

datatype State =
    State_Searching
  | State_Whitespace
  | State_Token
  | State_BracedBlock
  | State_QuotedStringWithinBlock
  | State_BlockComment
  | State_EolComment

text \<open>\<^verbatim>\<open>Delims = " \t\n\v\r"\<close>\<close>

definition Delims :: string where
  "Delims = [CHR '' '', CHR 0x09, CHR 0x0A, CHR 0x0B, CHR 0x0D]"

definition OpeningBrace :: char where
  "OpeningBrace = CHR ''{''"

definition ClosingBrace :: char where
  "ClosingBrace = CHR ''}''"

definition IsWhitespace :: "char \<Rightarrow> bool" where
  "IsWhitespace c = (c \<in> set Delims)"

text \<open>
  \<^verbatim>\<open>StringIteratorAdapter::peek()\<close>: the character after the current one, or NUL
  when there is none. The cursor \<^verbatim>\<open>next\<close> is the list of characters from the
  current position to the end marker.
\<close>

fun peek :: "string \<Rightarrow> char" where
  "peek [] = CHR 0x00"
| "peek [c] = CHR 0x00"
| "peek (c # d # cs) = d"

text \<open>
  The \<^verbatim>\<open>while (next != end)\<close> loop of \<^verbatim>\<open>operator()\<close>, one equation per state of
  the \<^verbatim>\<open>switch\<close>. The arguments are the loop's variables: \<^verbatim>\<open>_state\<close>,
  \<^verbatim>\<open>openedBlocks\<close> (a \<^verbatim>\<open>std::size_t\<close>, 64 bits), \<^verbatim>\<open>tok\<close> and the cursor. The
  result is the returned flag, the token and the cursor as the call leaves it.

  In state Searching a \<^verbatim>\<open>/\<close> is appended and stepped over before the character after
  it is looked at. When that character opens no comment (or there is none), control
  leaves the \<^verbatim>\<open>if (ch == '/')\<close> block and runs the common tail
  \<^verbatim>\<open>tok.value += ch; ++next;\<close> with \<^verbatim>\<open>ch\<close> still the slash: the slash is appended a
  second time and the cursor takes a second step, which at the end marker moves it past
  the end.

  In state BracedBlock \<^verbatim>\<open>--openedBlocks\<close> is evaluated only for a closing brace
  (the \<^verbatim>\<open>&&\<close> short-circuits), and a closing brace is never a quote.
\<close>

fun tokenise_loop ::
  "State \<Rightarrow> 64 word \<Rightarrow> DefSyntaxToken \<Rightarrow> string \<Rightarrow> error + (bool \<times> DefSyntaxToken \<times> string)"
where
  "tokenise_loop st openedBlocks tok [] = Inr (tok_value tok \<noteq> [], tok, [])"
| "tokenise_loop State_Searching openedBlocks tok (ch # next) =
     (if IsWhitespace ch then
        tokenise_loop State_Whitespace openedBlocks
          (tok\<lparr>tok_type := Whitespace, tok_value := tok_value tok @ [ch]\<rparr>) next
      else if ch = OpeningBrace then
        tokenise_loop State_BracedBlock 1
          (tok\<lparr>tok_type := BracedBlock, tok_value := tok_value tok @ [ch]\<rparr>) next
      else if ch = CHR ''/'' then
        (case next of
           [] \<Rightarrow> Inl IteratorPastEnd
         | c # next' \<Rightarrow>
             if c = CHR ''*'' then
               tokenise_loop State_BlockComment openedBlocks
                 (tok\<lparr>tok_type := BlockComment, tok_value := tok_value tok @ [ch] @ [CHR ''*'']\<rparr>) next'
             else if c = CHR ''/'' then
               tokenise_loop State_EolComment openedBlocks
                 (tok\<lparr>tok_type := EolComment, tok_value := tok_value tok @ [ch] @ [CHR ''/'']\<rparr>) next'
             else
               tokenise_loop State_Token openedBlocks
                 (tok\<lparr>tok_type := Token, tok_value := tok_value tok @ [ch] @ [ch]\<rparr>) next')
      else
        tokenise_loop State_Token openedBlocks
          (tok\<lparr>tok_type := Token, tok_value := tok_value tok @ [ch]\<rparr>) next)"
| "tokenise_loop State_BracedBlock openedBlocks tok (ch # next) =
     (let tok' = tok\<lparr>tok_value := tok_value tok @ [ch]\<rparr> in
      if ch = OpeningBrace then
        tokenise_loop State_BracedBlock (openedBlocks + 1) tok' next
      else if ch = ClosingBrace then
        (if openedBlocks - 1 = 0 then Inr (True, tok', next)
         else tokenise_loop State_BracedBlock (openedBlocks - 1) tok' next)
      else if ch = CHR 0x22 then
        tokenise_loop State_QuotedStringWithinBlock openedBlocks tok' next
      else
        tokenise_loop State_BracedBlock openedBlocks tok' next)"
| "tokenise_loop State_QuotedStringWithinBlock openedBlocks tok (ch # next) =
     (let tok' = tok\<lparr>tok_value := tok_value tok @ [ch]\<rparr> in
      if ch = CHR 0x22 then tokenise_loop State_BracedBlock openedBlocks tok' next
      else tokenise_loop State_QuotedStringWithinBlock openedBlocks tok' next)"
| "tokenise_loop State_Whitespace openedBlocks tok (ch # next) =
     (if IsWhitespace ch then
        tokenise_loop State_Whitespace openedBlocks (tok\<lparr>tok_value := tok_value tok @ [ch]\<rparr>) next
      else Inr (True, tok, ch # next))"
| "tokenise_loop State_BlockComment openedBlocks tok (ch # next) =
     (let tok' = tok\<lparr>tok_value := tok_value tok @ [ch]\<rparr> in
      if ch = CHR ''*'' \<and> next \<noteq> [] \<and> hd next = CHR ''/'' then
        Inr (True, tok'\<lparr>tok_value := tok_value tok' @ [CHR ''/'']\<rparr>, tl next)
      else tokenise_loop State_BlockComment openedBlocks tok' next)"
| "tokenise_loop State_EolComment openedBlocks tok (ch # next) =
     (if ch = CHR 0x0D \<or> ch = CHR 0x0A then Inr (True, tok, ch # next)
      else tokenise_loop State_EolComment openedBlocks (tok\<lparr>tok_value := tok_value tok @ [ch]\<rparr>) next)"
| "tokenise_loop State_Token openedBlocks tok (ch # next) =
     (if tok_value tok = [] then Inl AssertionFailed
      else if ch = OpeningBrace \<or> ch = ClosingBrace then Inr (True, tok, ch # next)
      else if ch = CHR ''/'' then
        (let nextChar = peek (ch # next) in
         if nextChar = CHR ''*'' \<or> nextChar = CHR ''/'' then Inr (True, tok, ch # next)
         else tokenise_loop State_Token openedBlocks (tok\<lparr>tok_value := tok_value tok @ [ch]\<rparr>) next)
      else if IsWhitespace ch then Inr (True, tok, ch # next)
      else tokenise_loop State_Token openedBlocks (tok\<lparr>tok_value := tok_value tok @ [ch]\<rparr>) next)"

text \<open>
  \<^verbatim>\<open>operator()(next, end, tok)\<close>: no state survives from one call to the next; the
  token is cleared and the loop starts in state Searching with no block open.
\<close>

definition DefBlockSyntaxTokeniserFunc :: "string \<Rightarrow> error + (bool \<times> DefSyntaxToken \<times> string)" where
  "DefBlockSyntaxTokeniserFunc next = tokenise_loop State_Searching 0 clear next"

section \<open>The token stream (string::Tokeniser)\<close>

lemma tokenise_loop_cursor:
  "tokenise_loop st openedBlocks tok cur = Inr (found, tok', cur') \<Longrightarrow> length cur' \<le> length cur"
proof (induction st openedBlocks tok cur rule: tokenise_loop.induct)
  case (2 openedBlocks tok ch "next")
  then show ?case
    by (cases "next") (auto split: if_splits simp: Let_def)
next
  case (6 openedBlocks tok ch "next")
  then show ?case
    by (cases "next") (auto split: if_splits simp: Let_def)
qed (auto split: if_splits simp: Let_def)

lemma tokenise_loop_Searching_cursor:
  assumes "tokenise_loop State_Searching openedBlocks tok (ch # cur) = Inr (found, tok', cur')"
  shows "length cur' \<le> length cur"
  using assms
  by (auto simp del: tokenise_loop.simps simp add: tokenise_loop.simps(2)
        split: if_splits list.splits dest!: tokenise_loop_cursor)

lemma DefBlockSyntaxTokeniserFunc_advances:
  assumes "DefBlockSyntaxTokeniserFunc cur = Inr (True, tok, cur')"
  shows "length cur' < length cur"
proof (cases cur)
  case Nil
  with assms show ?thesis
    by (simp add: DefBlockSyntaxTokeniserFunc_def clear_def)
next
  case (Cons ch cs)
  with assms tokenise_loop_Searching_cursor [of 0 clear ch cs True tok cur'] show ?thesis
    by (simp add: DefBlockSyntaxTokeniserFunc_def)
qed

text \<open>
  Modelled from the spec: \<^verbatim>\<open>string::Tokeniser\<close> and its iterator (header
  \<^verbatim>\<open>string/tokeniser.h\<close>) are not among the sources. The spec gives the contract
  (``given a cursor over an immutable character sequence and an end marker, produce the
  next token and advance the cursor, or report exhaustion if no characters remain'') and
  the comment on \<^verbatim>\<open>operator()\<close> says that the Tokeniser invokes it and that a false
  result means nothing was found before the end. The token stream is therefore the
  sequence of tokens of successive calls, each starting where the previous one stopped,
  up to the first call that returns false. As a call keeps no state, the sequence does
  not depend on when the parser asks for the next token; the parser below reads it
  through \<^verbatim>\<open>isExhausted()\<close> (the list is empty), \<^verbatim>\<open>*_tokIter\<close> (its head) and
  \<^verbatim>\<open>++_tokIter\<close> (its tail).
\<close>

function Tokeniser_tokens :: "string \<Rightarrow> error + DefSyntaxToken list" where
  "Tokeniser_tokens cur =
     (case DefBlockSyntaxTokeniserFunc cur of
        Inl e \<Rightarrow> Inl e
      | Inr (found, tok, cur') \<Rightarrow>
          if found then
            (case Tokeniser_tokens cur' of Inl e \<Rightarrow> Inl e | Inr toks \<Rightarrow> Inr (tok # toks))
          else Inr [])"
  by pat_completeness auto
termination
  by (relation "measure length") (auto dest: DefBlockSyntaxTokeniserFunc_advances)

declare Tokeniser_tokens.simps [simp del]

section \<open>Syntax nodes\<close>

text \<open>
  \<^verbatim>\<open>DefSyntaxNode::Type\<close>. The node type Whitespace is \<open>Node_Whitespace\<close> here, as the
  token type of the same name is declared above.
\<close>

datatype NodeType = Root | Node_Whitespace | Comment | DeclType | DeclName | DeclBlock

text \<open>
  The class \<^verbatim>\<open>DefSyntaxNode\<close> and its five subclasses, one constructor each. A
  \<^verbatim>\<open>DefSyntaxNode::Ptr\<close> is a shared pointer that may be null: \<open>None\<close>. The base class
  is instantiated for the root only, and \<^verbatim>\<open>appendChildNode\<close> is called on the root
  only, so the children a subclass inherits stay empty and are left out; each subclass
  passes a fixed \<^verbatim>\<open>Type\<close> to the base constructor (\<open>getType\<close> below). A block node
  holds \<^verbatim>\<open>_blockToken\<close>, \<^verbatim>\<open>_headerNodes\<close>, \<^verbatim>\<open>_type\<close> and \<^verbatim>\<open>_name\<close>; the last two
  alias header nodes, that are never changed once the block is built.
\<close>

datatype DefSyntaxNode =
    DefSyntaxNode NodeType "DefSyntaxNode option list"
  | DefWhitespaceSyntax DefSyntaxToken
  | DefCommentSyntax DefSyntaxToken
  | DefTypeSyntax DefSyntaxToken
  | DefNameSyntax DefSyntaxToken
  | DefBlockSyntax DefSyntaxToken "DefSyntaxNode option list" "DefSyntaxNode option" "DefSyntaxNode option"

type_synonym Ptr = "DefSyntaxNode option"

fun getType :: "DefSyntaxNode \<Rightarrow> NodeType" where
  "getType (DefSyntaxNode ty children) = ty"
| "getType (DefWhitespaceSyntax token) = Node_Whitespace"
| "getType (DefCommentSyntax token) = Comment"
| "getType (DefTypeSyntax token) = DeclType"
| "getType (DefNameSyntax token) = DeclName"
| "getType (DefBlockSyntax blockToken headerNodes ty nm) = DeclBlock"

fun getChildren :: "DefSyntaxNode \<Rightarrow> Ptr list" where
  "getChildren (DefSyntaxNode ty children) = children"
| "getChildren node = []"

text \<open>The constructors, with their assertions.\<close>

definition make_DefWhitespaceSyntax :: "DefSyntaxToken \<Rightarrow> error + DefSyntaxNode" where
  "make_DefWhitespaceSyntax token =
     (if tok_type token = Whitespace then Inr (DefWhitespaceSyntax token) else Inl AssertionFailed)"

definition make_DefCommentSyntax :: "DefSyntaxToken \<Rightarrow> error + DefSyntaxNode" where
  "make_DefCommentSyntax token =
     (if tok_type token = BlockComment \<or> tok_type token = EolComment
      then Inr (DefCommentSyntax token) else Inl AssertionFailed)"

definition make_DefTypeSyntax :: "DefSyntaxToken \<Rightarrow> error + DefSyntaxNode" where
  "make_DefTypeSyntax token =
     (if tok_type token = Token then Inr (DefTypeSyntax token) else Inl AssertionFailed)"

definition make_DefNameSyntax :: "DefSyntaxToken \<Rightarrow> error + DefSyntaxNode" where
  "make_DefNameSyntax token =
     (if tok_type token = Token then Inr (DefNameSyntax token) else Inl AssertionFailed)"

text \<open>
  \<^verbatim>\<open>std::vector::at\<close> called with an \<^verbatim>\<open>int\<close>: the index is converted to
  \<^verbatim>\<open>size_type\<close>, a negative one becomes a huge one, and an index that is not below the
  size throws \<^verbatim>\<open>std::out_of_range\<close>.
\<close>

definition at :: "'a list \<Rightarrow> int \<Rightarrow> error + 'a" where
  "at v i = (if 0 \<le> i \<and> nat i < length v then Inr (v ! nat i) else Inl OutOfRange)"

text \<open>
  \<^verbatim>\<open>static_cast<int>(headerNodes.size())\<close>: the size modulo \<open>2 ^ 32\<close>, read as a signed
  32-bit integer.
\<close>

definition static_cast_int :: "nat \<Rightarrow> int" where
  "static_cast_int n = sint (word_of_nat n :: 32 word)"

text \<open>
  The constructor of \<^verbatim>\<open>DefBlockSyntax\<close>; \<open>nameIndex\<close> and \<open>typeIndex\<close> default to
  \<open>-1\<close> at the call that omits them. The two assertions come first, then the two
  look-ups with \<^verbatim>\<open>at\<close>.
\<close>

definition make_DefBlockSyntax ::
  "DefSyntaxToken \<Rightarrow> Ptr list \<Rightarrow> int \<Rightarrow> int \<Rightarrow> error + DefSyntaxNode"
where
  "make_DefBlockSyntax blockToken headerNodes nameIndex typeIndex =
     (if tok_type blockToken \<noteq> BracedBlock then Inl AssertionFailed
      else if \<not> nameIndex \<ge> 0 then Inl AssertionFailed
      else
        case (if nameIndex \<noteq> - 1 then at headerNodes nameIndex else Inr None) of
          Inl e \<Rightarrow> Inl e
        | Inr nm \<Rightarrow>
            (case (if typeIndex \<noteq> - 1 then at headerNodes typeIndex else Inr None) of
               Inl e \<Rightarrow> Inl e
             | Inr ty \<Rightarrow> Inr (DefBlockSyntax blockToken headerNodes ty nm)))"

text \<open>
  \<^verbatim>\<open>getToken()\<close> of a name or type node, called through a pointer: on a null pointer it
  is a null dereference. \<^verbatim>\<open>static_pointer_cast\<close> checks nothing; on a node of another
  class the call is undefined, which is \<open>BadCast\<close> here.
\<close>

fun getToken :: "Ptr \<Rightarrow> error + DefSyntaxToken" where
  "getToken None = Inl NullPointerDereference"
| "getToken (Some (DefTypeSyntax token)) = Inr token"
| "getToken (Some (DefNameSyntax token)) = Inr token"
| "getToken (Some node) = Inl BadCast"

text \<open>
  \<^verbatim>\<open>DefSyntaxNode::getString\<close> appends \<^verbatim>\<open>child->getString()\<close> for every child, with no
  test for null. \<^verbatim>\<open>DefBlockSyntax::getString\<close> skips a null header node
  (\<^verbatim>\<open>if (!headerNode) continue;\<close>) and appends the block token after the headers. The
  two loops, over the results of the children:
\<close>

fun append_children :: "(error + string) option list \<Rightarrow> error + string" where
  "append_children [] = Inr []"
| "append_children (None # children) = Inl NullPointerDereference"
| "append_children (Some (Inl e) # children) = Inl e"
| "append_children (Some (Inr s) # children) =
     (case append_children children of Inl e \<Rightarrow> Inl e | Inr rest \<Rightarrow> Inr (s @ rest))"

fun append_headers :: "(error + string) option list \<Rightarrow> error + string" where
  "append_headers [] = Inr []"
| "append_headers (None # headerNodes) = append_headers headerNodes"
| "append_headers (Some (Inl e) # headerNodes) = Inl e"
| "append_headers (Some (Inr s) # headerNodes) =
     (case append_headers headerNodes of Inl e \<Rightarrow> Inl e | Inr rest \<Rightarrow> Inr (s @ rest))"

primrec getString :: "DefSyntaxNode \<Rightarrow> error + string" where
  "getString (DefSyntaxNode ty children) = append_children (map (map_option getString) children)"
| "getString (DefWhitespaceSyntax token) = Inr (tok_value token)"
| "getString (DefCommentSyntax token) = Inr (tok_value token)"
| "getString (DefTypeSyntax token) = Inr (tok_value token)"
| "getString (DefNameSyntax token) = Inr (tok_value token)"
| "getString (DefBlockSyntax blockToken headerNodes ty nm) =
     (case append_headers (map (map_option getString) headerNodes) of
        Inl e \<Rightarrow> Inl e
      | Inr output \<Rightarrow> Inr (output @ tok_value blockToken))"

text \<open>\<^verbatim>\<open>DefBlockSyntax::getType()\<close> and \<^verbatim>\<open>getName()\<close>: the two pointers, null when unset.\<close>

fun getBlockType :: "DefSyntaxNode \<Rightarrow> Ptr" where
  "getBlockType (DefBlockSyntax blockToken headerNodes ty nm) = ty"
| "getBlockType node = None"

fun getName :: "DefSyntaxNode \<Rightarrow> Ptr" where
  "getName (DefBlockSyntax blockToken headerNodes ty nm) = nm"
| "getName node = None"

text \<open>\<^verbatim>\<open>DefSyntaxTree\<close>: the root node, made by the constructor and never null.\<close>

datatype DefSyntaxTree = DefSyntaxTree (getRoot: DefSyntaxNode)

definition DefSyntaxTree_getString :: "DefSyntaxTree \<Rightarrow> error + string" where
  "DefSyntaxTree_getString tree = getString (getRoot tree)"

section \<open>The parser (DefBlockSyntaxParser)\<close>

text \<open>
  \<^verbatim>\<open>rWarning()\<close> writes to a log outside the sources; the parser's functions take the
  lines logged so far and return them with their own added.

  \<^verbatim>\<open>parseBlock\<close>: the loop \<^verbatim>\<open>while (!block && !_tokIter.isExhausted())\<close> with its
  variables \<^verbatim>\<open>headerNodes\<close>, \<^verbatim>\<open>nameIndex\<close>, \<^verbatim>\<open>typeIndex\<close>. The token is taken and
  the iterator advanced (\<^verbatim>\<open>*_tokIter++\<close>) before the \<^verbatim>\<open>switch\<close>. The loop ends with
  the block once a braced block token has built it, and with the null pointer
  \<^verbatim>\<open>block\<close> was initialised to when the tokens run out first. A token of type Nothing
  matches no case.
\<close>

fun parseBlock_loop ::
  "Ptr list \<Rightarrow> int \<Rightarrow> int \<Rightarrow> DefSyntaxToken list \<Rightarrow> string list \<Rightarrow>
     error + (Ptr \<times> DefSyntaxToken list \<times> string list)"
where
  "parseBlock_loop headerNodes nameIndex typeIndex [] log = Inr (None, [], log)"
| "parseBlock_loop headerNodes nameIndex typeIndex (token # tokIter) log =
     (case tok_type token of
        BlockComment \<Rightarrow>
          (case make_DefCommentSyntax token of
             Inl e \<Rightarrow> Inl e
           | Inr node \<Rightarrow> parseBlock_loop (headerNodes @ [Some node]) nameIndex typeIndex tokIter log)
      | EolComment \<Rightarrow>
          (case make_DefCommentSyntax token of
             Inl e \<Rightarrow> Inl e
           | Inr node \<Rightarrow> parseBlock_loop (headerNodes @ [Some node]) nameIndex typeIndex tokIter log)
      | Whitespace \<Rightarrow>
          (case make_DefWhitespaceSyntax token of
             Inl e \<Rightarrow> Inl e
           | Inr node \<Rightarrow> parseBlock_loop (headerNodes @ [Some node]) nameIndex typeIndex tokIter log)
      | BracedBlock \<Rightarrow>
          (case make_DefBlockSyntax token headerNodes nameIndex typeIndex of
             Inl e \<Rightarrow> Inl e
           | Inr block \<Rightarrow> Inr (Some block, tokIter, log))
      | Token \<Rightarrow>
          if nameIndex = - 1 then
            (case make_DefNameSyntax token of
               Inl e \<Rightarrow> Inl e
             | Inr node \<Rightarrow>
                 parseBlock_loop (headerNodes @ [Some node])
                   (static_cast_int (length headerNodes)) typeIndex tokIter log)
          else if typeIndex = - 1 then
            (case at headerNodes nameIndex of
               Inl e \<Rightarrow> Inl e
             | Inr oldName \<Rightarrow>
                 (case getToken oldName of
                    Inl e \<Rightarrow> Inl e
                  | Inr oldToken \<Rightarrow>
                      (case make_DefTypeSyntax oldToken of
                         Inl e \<Rightarrow> Inl e
                       | Inr typeNode \<Rightarrow>
                           (case make_DefNameSyntax token of
                              Inl e \<Rightarrow> Inl e
                            | Inr node \<Rightarrow>
                                parseBlock_loop
                                  (headerNodes[nat nameIndex := Some typeNode] @ [Some node])
                                  (static_cast_int (length headerNodes)) nameIndex tokIter log))))
          else
            parseBlock_loop headerNodes nameIndex typeIndex tokIter
              (log @ [''Invalid number of decl block headers, already got a name and type''])
      | Nothing \<Rightarrow> parseBlock_loop headerNodes nameIndex typeIndex tokIter log)"

definition parseBlock ::
  "DefSyntaxToken list \<Rightarrow> string list \<Rightarrow> error + (Ptr \<times> DefSyntaxToken list \<times> string list)"
where
  "parseBlock tokIter log = parseBlock_loop [] (- 1) (- 1) tokIter log"

text \<open>
  The loop of \<^verbatim>\<open>parse()\<close>, with the children of the root so far. A comment, whitespace
  or braced block token becomes a child and the iterator moves on; at a bare token
  \<^verbatim>\<open>parseBlock\<close> takes over from that token, and whatever pointer it returns is
  appended. For a token of type Nothing no case matches and the iterator stays where it
  is: the loop runs again on the same token, for ever. So the loop is a partial
  function, and \<open>None\<close> is ``does not return''.
\<close>

partial_function (option) parse_loop ::
  "DefSyntaxToken list \<Rightarrow> Ptr list \<Rightarrow> string list \<Rightarrow> (error + (Ptr list \<times> string list)) option"
where
  "parse_loop tokIter children log =
     (case tokIter of
        [] \<Rightarrow> Some (Inr (children, log))
      | token # rest \<Rightarrow>
          (case tok_type token of
             BlockComment \<Rightarrow>
               (case make_DefCommentSyntax token of
                  Inl e \<Rightarrow> Some (Inl e)
                | Inr node \<Rightarrow> parse_loop rest (children @ [Some node]) log)
           | EolComment \<Rightarrow>
               (case make_DefCommentSyntax token of
                  Inl e \<Rightarrow> Some (Inl e)
                | Inr node \<Rightarrow> parse_loop rest (children @ [Some node]) log)
           | Whitespace \<Rightarrow>
               (case make_DefWhitespaceSyntax token of
                  Inl e \<Rightarrow> Some (Inl e)
                | Inr node \<Rightarrow> parse_loop rest (children @ [Some node]) log)
           | BracedBlock \<Rightarrow>
               (case make_DefBlockSyntax token [] (- 1) (- 1) of
                  Inl e \<Rightarrow> Some (Inl e)
                | Inr node \<Rightarrow>
                    parse_loop rest (children @ [Some node])
                      (log @ [''Unnamed block encountered: '' @ tok_value token]))
           | Token \<Rightarrow>
               (case parseBlock tokIter log of
                  Inl e \<Rightarrow> Some (Inl e)
                | Inr (block, rest', log') \<Rightarrow> parse_loop rest' (children @ [block]) log')
           | Nothing \<Rightarrow> parse_loop tokIter children log))"

declare parse_loop.simps [code]

text \<open>
  \<^verbatim>\<open>DefBlockSyntaxParser(str).parse()\<close>: the tokens of the text, then the loop on a
  fresh tree whose root has no children. The result is the tree and the warnings
  logged.
\<close>

definition parse_tokens ::
  "DefSyntaxToken list \<Rightarrow> (error + (DefSyntaxTree \<times> string list)) option"
where
  "parse_tokens tokIter =
     (case parse_loop tokIter [] [] of
        None \<Rightarrow> None
      | Some (Inl e) \<Rightarrow> Some (Inl e)
      | Some (Inr (children, log)) \<Rightarrow> Some (Inr (DefSyntaxTree (DefSyntaxNode Root children), log)))"

definition parse :: "string \<Rightarrow> (error + (DefSyntaxTree \<times> string list)) option" where
  "parse str =
     (case Tokeniser_tokens str of
        Inl e \<Rightarrow> Some (Inl e)
      | Inr toks \<Rightarrow> parse_tokens toks)"

section \<open>Block contents\<close>

text \<open>
  Modelled from the spec: \<^verbatim>\<open>string::trim_copy\<close> (header \<^verbatim>\<open>string/trim.h\<close>) is not
  among the sources, and the spec does not describe it. What is known of it is its use:
  \<^verbatim>\<open>getBlockContents\<close> passes the text and the string \<^verbatim>\<open>"{}"\<close>, a set of characters
  and not a pair of delimiters, and the material tests call the one-argument form to
  strip the whitespace around a definition. It is taken to be the usual trim: the result
  is the text without its longest prefix and its longest suffix made of characters of
  the filter.
\<close>

definition trim_copy :: "string \<Rightarrow> string \<Rightarrow> string" where
  "trim_copy input filter_chars =
     rev (dropWhile (\<lambda>c. c \<in> set filter_chars)
       (rev (dropWhile (\<lambda>c. c \<in> set filter_chars) input)))"

text \<open>
  \<^verbatim>\<open>DefBlockSyntax::getBlockContents()\<close>, called through a pointer to a block; the
  source's comment: ``Returns the raw block contents without the opening and closing
  braces''.
\<close>

fun getBlockContents :: "Ptr \<Rightarrow> error + string" where
  "getBlockContents None = Inl NullPointerDereference"
| "getBlockContents (Some (DefBlockSyntax blockToken headerNodes ty nm)) =
     Inr (trim_copy (tok_value blockToken) ''{}'')"
| "getBlockContents (Some node) = Inl BadCast"

section \<open>The declaration registry (DeclarationManager)\<close>

text \<open>
  A creator is known by the instance it is (two creators of one class are two
  instances) and by the declaration type it creates. The manager's two maps are the
  fields \<^verbatim>\<open>_creatorsByTypename\<close> and \<^verbatim>\<open>_creatorsByType\<close> of the header; the type
  of declaration types is left open, as the spec has it.
\<close>

record 't IDeclarationCreator =
  instance_id :: nat
  getDeclType :: 't

record 't DeclarationManager =
  creatorsByTypename :: "string \<rightharpoonup> 't IDeclarationCreator"
  creatorsByType :: "'t \<rightharpoonup> 't IDeclarationCreator"

text \<open>
  Modelled from the spec: \<^verbatim>\<open>DeclarationManager::registerDeclType\<close> is declared in
  \<^verbatim>\<open>DeclarationManager.h\<close> and exercised by the test \<^verbatim>\<open>DeclTypeRegistration\<close>, but its
  body is not among the sources. The spec: it ``binds a textual keyword and the
  creator's Type. Fails with an "already registered" condition if that keyword is
  already bound, even to a different creator instance''; the test expects
  \<^verbatim>\<open>std::logic_error\<close>.
\<close>

definition registerDeclType ::
  "string \<Rightarrow> 't IDeclarationCreator \<Rightarrow> 't DeclarationManager \<Rightarrow> error + 't DeclarationManager"
where
  "registerDeclType typeName creator m =
     (if creatorsByTypename m typeName \<noteq> None then Inl (LogicError ''already registered'')
      else Inr (m\<lparr>creatorsByTypename := (creatorsByTypename m)(typeName \<mapsto> creator),
                  creatorsByType := (creatorsByType m)(getDeclType creator \<mapsto> creator)\<rparr>))"

section \<open>Vocabulary of the statements\<close>

text \<open>
  Whitespace and comments are the tokens that count for nothing in a block's header;
  \<open>trivia_node\<close> is the header node \<^verbatim>\<open>parseBlock\<close> makes of one.
\<close>

definition is_trivia :: "DefSyntaxToken \<Rightarrow> bool" where
  "is_trivia token =
     (tok_type token = Whitespace \<or> tok_type token = EolComment \<or> tok_type token = BlockComment)"

definition trivia_node :: "DefSyntaxToken \<Rightarrow> Ptr" where
  "trivia_node token =
     Some (if tok_type token = Whitespace then DefWhitespaceSyntax token else DefCommentSyntax token)"

text \<open>
  Parsing a text and asking the tree for its string, as a caller does:
  \<^verbatim>\<open>DefBlockSyntaxParser(str).parse()->getString()\<close>; and the warnings logged on the way.
\<close>

definition parse_getString :: "string \<Rightarrow> (error + string) option" where
  "parse_getString str =
     (case parse str of
        None \<Rightarrow> None
      | Some (Inl e) \<Rightarrow> Some (Inl e)
      | Some (Inr (tree, log)) \<Rightarrow> Some (DefSyntaxTree_getString tree))"

definition parse_warnings :: "string \<Rightarrow> (error + string list) option" where
  "parse_warnings str =
     (case parse str of
        None \<Rightarrow> None
      | Some (Inl e) \<Rightarrow> Some (Inl e)
      | Some (Inr (tree, log)) \<Rightarrow> Some (Inr log))"

text \<open>
  The cursors at which state Searching takes the slash for the start of a bare token and
  a character follows: a \<^verbatim>\<open>/\<close> and then a character that is neither \<^verbatim>\<open>*\<close> nor
  \<^verbatim>\<open>/\<close>.
\<close>

fun lone_slash_start :: "string \<Rightarrow> bool" where
  "lone_slash_start (ch # c # rest) = (ch = CHR ''/'' \<and> c \<noteq> CHR ''*'' \<and> c \<noteq> CHR ''/'')"
| "lone_slash_start cur = False"

text \<open>
  The spec's bare token, in its words: ``a maximal run of characters that are not
  whitespace, not \<^verbatim>\<open>{\<close>/\<^verbatim>\<open>}\<close>, and do not begin a comment (\<^verbatim>\<open>/\<close> immediately followed
  by \<^verbatim>\<open>*\<close> or \<^verbatim>\<open>/\<close> ends the token without consuming the slash)''.
\<close>

fun begins_comment :: "string \<Rightarrow> bool" where
  "begins_comment (ch # c # rest) = (ch = CHR ''/'' \<and> (c = CHR ''*'' \<or> c = CHR ''/''))"
| "begins_comment cur = False"

fun token_run :: "string \<Rightarrow> string" where
  "token_run [] = []"
| "token_run (ch # next) =
     (if IsWhitespace ch \<or> ch = OpeningBrace \<or> ch = ClosingBrace \<or> begins_comment (ch # next)
      then [] else ch # token_run next)"

text \<open>
  Well-formed token sequences: whitespace and comments anywhere, and every braced block
  after one or two bare tokens of its own; no token of type Nothing, no braced block
  without a name, no third bare token, no header left without its block at the end.
  \<open>well_formed_from n\<close> reads the rest of a sequence when \<open>n\<close> bare tokens of the
  current header have been seen.
\<close>

fun well_formed_from :: "nat \<Rightarrow> DefSyntaxToken list \<Rightarrow> bool" where
  "well_formed_from n [] = (n = 0)"
| "well_formed_from n (token # toks) =
     (case tok_type token of
        Nothing \<Rightarrow> False
      | Whitespace \<Rightarrow> well_formed_from n toks
      | EolComment \<Rightarrow> well_formed_from n toks
      | BlockComment \<Rightarrow> well_formed_from n toks
      | Token \<Rightarrow> n < 2 \<and> well_formed_from (Suc n) toks
      | BracedBlock \<Rightarrow> 0 < n \<and> well_formed_from 0 toks)"

definition well_formed :: "DefSyntaxToken list \<Rightarrow> bool" where
  "well_formed toks = well_formed_from 0 toks"

text \<open>
  The header so far when one bare token has been seen (\<open>n = 1\<close>: its name node first,
  \<open>nameIndex = 0\<close>, no type) and when two have been (\<open>n = 2\<close>: both indices inside the
  header).
\<close>

definition header_state :: "nat \<Rightarrow> Ptr list \<Rightarrow> int \<Rightarrow> int \<Rightarrow> bool" where
  "header_state n headerNodes nameIndex typeIndex =
     (if n = 1 then
        nameIndex = 0 \<and> typeIndex = - 1
        \<and> (\<exists>t hs. headerNodes = Some (DefNameSyntax t) # hs \<and> tok_type t = Token)
      else
        n = 2 \<and> typeIndex = 0 \<and> 0 \<le> nameIndex \<and> nat nameIndex < length headerNodes)"

section \<open>What one call of the tokeniser does\<close>

text \<open>
  Outside state Searching the loop returns true on a token that has a character, keeps
  the token's type and appends to it the characters the cursor has passed, nothing else.
\<close>

lemma tokenise_loop_appends:
  assumes "st \<noteq> State_Searching" and "tok_value tok \<noteq> []"
  shows "\<exists>app cur'.
           tokenise_loop st openedBlocks tok cur =
             Inr (True, tok\<lparr>tok_value := tok_value tok @ app\<rparr>, cur')
           \<and> cur = app @ cur'"
  using assms
proof (induction st openedBlocks tok cur rule: tokenise_loop.induct)
  case (1 st openedBlocks tok)
  then show ?case by simp
next
  case (2 openedBlocks tok ch "next")
  then show ?case by simp
next
  case (3 openedBlocks tok ch "next")
  then show ?case by (auto simp: Let_def)
next
  case (4 openedBlocks tok ch "next")
  then show ?case by (auto simp: Let_def)
next
  case (5 openedBlocks tok ch "next")
  then show ?case by auto
next
  case (6 openedBlocks tok ch "next")
  then show ?case by (cases "next") (auto simp: Let_def)
next
  case (7 openedBlocks tok ch "next")
  then show ?case by auto
next
  case (8 openedBlocks tok ch "next")
  then show ?case by (auto simp: Let_def)
qed

lemma tokeniser_call_Nil:
  "DefBlockSyntaxTokeniserFunc [] = Inr (False, clear, [])"
  by (simp add: DefBlockSyntaxTokeniserFunc_def clear_def)

lemma tokeniser_call_final_slash:
  "DefBlockSyntaxTokeniserFunc ''/'' = Inl IteratorPastEnd"
  by (simp add: DefBlockSyntaxTokeniserFunc_def clear_def IsWhitespace_def Delims_def
        OpeningBrace_def)

lemma tokeniser_call_lone_slash:
  assumes "lone_slash_start cur"
  shows "\<exists>c app cur'.
           DefBlockSyntaxTokeniserFunc cur =
             Inr (True, \<lparr>tok_type = Token, tok_value = ''//'' @ app\<rparr>, cur')
           \<and> cur = CHR ''/'' # c # app @ cur'"
proof -
  from assms obtain c rest where cur: "cur = CHR ''/'' # c # rest"
    and c: "c \<noteq> CHR ''*''" "c \<noteq> CHR ''/''"
    by (cases cur rule: lone_slash_start.cases) auto
  obtain app cur' where
    "tokenise_loop State_Token 0 \<lparr>tok_type = Token, tok_value = ''//''\<rparr> rest =
       Inr (True, \<lparr>tok_type = Token, tok_value = ''//''\<rparr>\<lparr>tok_value := ''//'' @ app\<rparr>, cur')"
    and "rest = app @ cur'"
    using tokenise_loop_appends [of State_Token "\<lparr>tok_type = Token, tok_value = ''//''\<rparr>" 0 rest]
    by auto
  with cur c have
    "DefBlockSyntaxTokeniserFunc cur =
       Inr (True, \<lparr>tok_type = Token, tok_value = ''//'' @ app\<rparr>, cur')
     \<and> cur = CHR ''/'' # c # app @ cur'"
    by (simp del: tokenise_loop.simps add: DefBlockSyntaxTokeniserFunc_def clear_def
          IsWhitespace_def Delims_def OpeningBrace_def tokenise_loop.simps(2))
  then show ?thesis
    by blast
qed

lemma tokeniser_call_regular:
  assumes "cur \<noteq> []" and "cur \<noteq> ''/''" and "\<not> lone_slash_start cur"
  shows "\<exists>tok cur'.
           DefBlockSyntaxTokeniserFunc cur = Inr (True, tok, cur')
           \<and> tok_value tok @ cur' = cur
           \<and> tok_value tok \<noteq> []
           \<and> tok_type tok \<noteq> Nothing
           \<and> (tok_type tok = Token \<longrightarrow> hd (tok_value tok) \<noteq> CHR ''/'')"
proof -
  from assms(1) obtain ch "next" where cur: "cur = ch # next"
    by (cases cur) auto
  have step: "\<exists>tok cur'.
      tokenise_loop st 0 \<lparr>tok_type = ty, tok_value = v\<rparr> rest = Inr (True, tok, cur')
      \<and> tok_value tok @ cur' = v @ rest \<and> tok_value tok \<noteq> [] \<and> tok_type tok = ty
      \<and> hd (tok_value tok) = hd v"
    if "st \<noteq> State_Searching" and "v \<noteq> []" for st ty v rest
    using tokenise_loop_appends [of st "\<lparr>tok_type = ty, tok_value = v\<rparr>" 0 rest] that
    by auto
  consider (ws) "IsWhitespace ch"
    | (brace) "\<not> IsWhitespace ch" "ch = OpeningBrace"
    | (block) "\<not> IsWhitespace ch" "ch \<noteq> OpeningBrace" "ch = CHR ''/''"
        "next = CHR ''*'' # tl next"
    | (eol) "\<not> IsWhitespace ch" "ch \<noteq> OpeningBrace" "ch = CHR ''/''"
        "next = CHR ''/'' # tl next"
    | (bare) "\<not> IsWhitespace ch" "ch \<noteq> OpeningBrace" "ch \<noteq> CHR ''/''"
    using assms(2,3) cur
    by (cases "next") (auto simp: IsWhitespace_def Delims_def OpeningBrace_def)
  then show ?thesis
  proof cases
    case ws
    with step [of State_Whitespace "[ch]" Whitespace "next"] cur show ?thesis
      by (auto simp del: tokenise_loop.simps
            simp add: DefBlockSyntaxTokeniserFunc_def clear_def tokenise_loop.simps(2))
  next
    case brace
    from brace tokenise_loop_appends
      [of State_BracedBlock "\<lparr>tok_type = BracedBlock, tok_value = [ch]\<rparr>" 1 "next"] cur
    show ?thesis
      by (auto simp del: tokenise_loop.simps
            simp add: DefBlockSyntaxTokeniserFunc_def clear_def tokenise_loop.simps(2))
  next
    case block
    from block(4) obtain rest where rest: "next = CHR ''*'' # rest" ..
    with block step [of State_BlockComment "''/*''" BlockComment rest] cur show ?thesis
      by (auto simp del: tokenise_loop.simps
            simp add: DefBlockSyntaxTokeniserFunc_def clear_def tokenise_loop.simps(2))
  next
    case eol
    from eol(4) obtain rest where rest: "next = CHR ''/'' # rest" ..
    with eol step [of State_EolComment "''//''" EolComment rest] cur show ?thesis
      by (auto simp del: tokenise_loop.simps
            simp add: DefBlockSyntaxTokeniserFunc_def clear_def tokenise_loop.simps(2))
  next
    case bare
    with step [of State_Token "[ch]" Token "next"] cur show ?thesis
      by (auto simp del: tokenise_loop.simps
            simp add: DefBlockSyntaxTokeniserFunc_def clear_def tokenise_loop.simps(2))
  qed
qed

lemma tokeniser_call_found:
  assumes "DefBlockSyntaxTokeniserFunc cur = Inr (True, tok, cur')"
  shows "tok_type tok \<noteq> Nothing \<and> tok_value tok \<noteq> []
         \<and> (lone_slash_start cur \<longrightarrow> tok_type tok = Token \<and> hd (tok_value tok) = CHR ''/'')
         \<and> (\<not> lone_slash_start cur \<longrightarrow>
              tok_value tok @ cur' = cur
              \<and> (tok_type tok = Token \<longrightarrow> hd (tok_value tok) \<noteq> CHR ''/''))"
proof (cases "lone_slash_start cur")
  case True
  with tokeniser_call_lone_slash [OF True] assms show ?thesis
    by auto
next
  case False
  from assms have "cur \<noteq> []" and "cur \<noteq> ''/''"
    by (auto simp: tokeniser_call_Nil tokeniser_call_final_slash)
  with tokeniser_call_regular [OF this False] assms False show ?thesis
    by auto
qed

text \<open>
  The call fails on one cursor only, the one with a single \<^verbatim>\<open>/\<close> left, and reports
  exhaustion on one cursor only, the one at the end marker.
\<close>

lemma tokeniser_fails_iff:
  "DefBlockSyntaxTokeniserFunc cur = Inl e \<longleftrightarrow> cur = ''/'' \<and> e = IteratorPastEnd"
proof (cases "cur = [] \<or> cur = ''/'' \<or> lone_slash_start cur")
  case True
  then show ?thesis
    using tokeniser_call_lone_slash [of cur]
    by (auto simp: tokeniser_call_Nil tokeniser_call_final_slash)
next
  case False
  then show ?thesis
    using tokeniser_call_regular [of cur] by auto
qed

lemma tokeniser_exhausted_iff:
  "DefBlockSyntaxTokeniserFunc cur = Inr (False, tok, cur') \<longleftrightarrow> cur = [] \<and> tok = clear \<and> cur' = []"
proof (cases "cur = [] \<or> cur = ''/'' \<or> lone_slash_start cur")
  case True
  then show ?thesis
    using tokeniser_call_lone_slash [of cur]
    by (auto simp: tokeniser_call_Nil tokeniser_call_final_slash)
next
  case False
  then show ?thesis
    using tokeniser_call_regular [of cur] by auto
qed

lemma peek_begins_comment:
  "(peek (CHR ''/'' # next) = CHR ''*'' \<or> peek (CHR ''/'' # next) = CHR ''/'')
     = begins_comment (CHR ''/'' # next)"
  by (cases "next") auto

lemma tokenise_loop_Token_run:
  "tok_value tok \<noteq> [] \<Longrightarrow>
   tokenise_loop State_Token openedBlocks tok cur =
     Inr (True, tok\<lparr>tok_value := tok_value tok @ token_run cur\<rparr>,
          drop (length (token_run cur)) cur)"
proof (induction cur arbitrary: tok)
  case Nil
  then show ?case by simp
next
  case (Cons ch "next")
  show ?case
  proof (cases "ch = CHR ''/''")
    case True
    with Cons.prems Cons.IH [of "tok\<lparr>tok_value := tok_value tok @ [ch]\<rparr>"]
      peek_begins_comment [of "next"]
    show ?thesis
      by (auto simp: Let_def IsWhitespace_def Delims_def OpeningBrace_def ClosingBrace_def)
  next
    case False
    then have "\<not> begins_comment (ch # next)"
      by (cases "next") auto
    with False Cons.prems Cons.IH [of "tok\<lparr>tok_value := tok_value tok @ [ch]\<rparr>"]
    show ?thesis
      by (simp add: Let_def)
  qed
qed

text \<open>
  A token started at a character that is no whitespace, no opening brace and no slash
  is that character and the maximal run after it, and the cursor is left at the end of
  the run; every slash of the run is there once, with the character after it. A token
  started at a slash that opens no comment is two slashes and the run after the
  character that followed the slash.
\<close>

lemma bare_token_is_maximal_run:
  assumes "\<not> IsWhitespace ch" and "ch \<noteq> OpeningBrace" and "ch \<noteq> CHR ''/''"
  shows "DefBlockSyntaxTokeniserFunc (ch # next) =
           Inr (True, \<lparr>tok_type = Token, tok_value = ch # token_run next\<rparr>,
                drop (length (token_run next)) next)"
  using assms tokenise_loop_Token_run [of "\<lparr>tok_type = Token, tok_value = [ch]\<rparr>" 0 "next"]
  by (simp del: tokenise_loop.simps
        add: DefBlockSyntaxTokeniserFunc_def clear_def tokenise_loop.simps(2))

lemma bare_token_at_lone_slash:
  assumes "c \<noteq> CHR ''*''" and "c \<noteq> CHR ''/''"
  shows "DefBlockSyntaxTokeniserFunc (CHR ''/'' # c # rest) =
           Inr (True, \<lparr>tok_type = Token, tok_value = ''//'' @ token_run rest\<rparr>,
                drop (length (token_run rest)) rest)"
  using assms tokenise_loop_Token_run [of "\<lparr>tok_type = Token, tok_value = ''//''\<rparr>" 0 rest]
  by (simp del: tokenise_loop.simps
        add: DefBlockSyntaxTokeniserFunc_def clear_def tokenise_loop.simps(2)
          IsWhitespace_def Delims_def OpeningBrace_def)

lemma quoted_string_run:
  "CHR 0x22 \<notin> set q \<Longrightarrow>
   tokenise_loop State_QuotedStringWithinBlock openedBlocks tok (q @ CHR 0x22 # rest) =
   tokenise_loop State_BracedBlock openedBlocks (tok\<lparr>tok_value := tok_value tok @ q @ [CHR 0x22]\<rparr>) rest"
  by (induction q arbitrary: tok) (auto simp: Let_def)

section \<open>What the token stream holds\<close>

lemma Tokeniser_tokens_Cons:
  assumes "Tokeniser_tokens cur = Inr (tok # toks)"
  shows "\<exists>cur'. DefBlockSyntaxTokeniserFunc cur = Inr (True, tok, cur')
               \<and> Tokeniser_tokens cur' = Inr toks"
  using assms
  by (subst (asm) Tokeniser_tokens.simps) (auto split: sum.splits if_splits)

lemma Tokeniser_tokens_Nil:
  "Tokeniser_tokens cur = Inr [] \<longleftrightarrow> cur = []"
proof
  assume "Tokeniser_tokens cur = Inr []"
  then have "\<exists>tok cur'. DefBlockSyntaxTokeniserFunc cur = Inr (False, tok, cur')"
    by (subst (asm) Tokeniser_tokens.simps) (auto split: sum.splits if_splits)
  then show "cur = []"
    by (auto simp: tokeniser_exhausted_iff)
next
  assume "cur = []"
  then show "Tokeniser_tokens cur = Inr []"
    by (subst Tokeniser_tokens.simps) (simp add: tokeniser_call_Nil)
qed

text \<open>
  No token of the stream has type Nothing or is empty. The texts of the tokens, one
  after the other, are the text itself, unless some bare token begins with a slash:
  no bare token that keeps to the text does, and every one made at a
  \<open>lone_slash_start\<close> does.
\<close>

lemma Tokeniser_tokens_proper:
  "Tokeniser_tokens cur = Inr toks \<Longrightarrow> t \<in> set toks \<Longrightarrow> tok_type t \<noteq> Nothing \<and> tok_value t \<noteq> []"
proof (induction toks arbitrary: cur)
  case Nil
  then show ?case by simp
next
  case (Cons tok toks)
  from Tokeniser_tokens_Cons [OF Cons.prems(1)] obtain cur' where
    "DefBlockSyntaxTokeniserFunc cur = Inr (True, tok, cur')" and "Tokeniser_tokens cur' = Inr toks"
    by blast
  with Cons.IH [of cur'] Cons.prems(2) tokeniser_call_found [of cur tok cur'] show ?case
    by auto
qed

lemma Tokeniser_tokens_lossless:
  "Tokeniser_tokens cur = Inr toks \<Longrightarrow>
   \<forall>t \<in> set toks. tok_type t = Token \<longrightarrow> hd (tok_value t) \<noteq> CHR ''/'' \<Longrightarrow>
   concat (map tok_value toks) = cur"
proof (induction toks arbitrary: cur)
  case Nil
  then show ?case by (simp add: Tokeniser_tokens_Nil)
next
  case (Cons tok toks)
  from Tokeniser_tokens_Cons [OF Cons.prems(1)] obtain cur' where
    call: "DefBlockSyntaxTokeniserFunc cur = Inr (True, tok, cur')"
    and rest: "Tokeniser_tokens cur' = Inr toks"
    by blast
  from Cons.prems(2) have "tok_type tok = Token \<longrightarrow> hd (tok_value tok) \<noteq> CHR ''/''"
    by simp
  with tokeniser_call_found [OF call] have "tok_value tok @ cur' = cur"
    by blast
  moreover from Cons.IH [OF rest] Cons.prems(2) have "concat (map tok_value toks) = cur'"
    by simp
  ultimately show ?case
    by simp
qed

section \<open>Block headers\<close>

lemma static_cast_int_small:
  assumes "n < 2 ^ 31"
  shows "static_cast_int n = int n"
proof -
  have "static_cast_int n = (int n + 2 ^ 31) mod 2 ^ 32 - 2 ^ 31"
    using int_word_sint [of "int n", where 'a = 32] by (simp add: static_cast_int_def)
  also have "\<dots> = int n"
    using assms by (simp add: mod_pos_pos_trivial)
  finally show ?thesis .
qed

lemma parseBlock_loop_trivia:
  "\<forall>t \<in> set w. is_trivia t \<Longrightarrow>
   parseBlock_loop headerNodes nameIndex typeIndex (w @ tokIter) log =
   parseBlock_loop (headerNodes @ map trivia_node w) nameIndex typeIndex tokIter log"
proof (induction w arbitrary: headerNodes)
  case Nil
  show ?case by simp
next
  case (Cons t w)
  from Cons.prems have t: "is_trivia t" and w: "\<forall>t \<in> set w. is_trivia t"
    by simp_all
  from t have
    "parseBlock_loop headerNodes nameIndex typeIndex ((t # w) @ tokIter) log =
     parseBlock_loop (headerNodes @ [trivia_node t]) nameIndex typeIndex (w @ tokIter) log"
    by (auto simp: is_trivia_def trivia_node_def make_DefCommentSyntax_def
          make_DefWhitespaceSyntax_def)
  with Cons.IH [OF w] show ?case
    by simp
qed

lemma parseBlock_loop_first_identifier:
  "tok_type t1 = Token \<Longrightarrow>
   parseBlock_loop [] (- 1) (- 1) (t1 # tokIter) log =
   parseBlock_loop [Some (DefNameSyntax t1)] 0 (- 1) tokIter log"
  by (simp add: make_DefNameSyntax_def static_cast_int_def)

lemma parseBlock_loop_second_identifier:
  assumes "tok_type t2 = Token" and "tok_type t1 = Token" and "length hs < 2 ^ 31 - 1"
  shows "parseBlock_loop (Some (DefNameSyntax t1) # hs) 0 (- 1) (t2 # tokIter) log =
         parseBlock_loop (Some (DefTypeSyntax t1) # hs @ [Some (DefNameSyntax t2)])
           (int (Suc (length hs))) 0 tokIter log"
proof -
  from assms(3) have "Suc (length hs) < 2 ^ 31"
    by simp
  then have "static_cast_int (Suc (length hs)) = int (Suc (length hs))"
    by (rule static_cast_int_small)
  with assms(1,2) show ?thesis
    by (simp add: at_def make_DefNameSyntax_def make_DefTypeSyntax_def)
qed

lemma parseBlock_loop_extra_identifier:
  "tok_type t3 = Token \<Longrightarrow> nameIndex \<noteq> - 1 \<Longrightarrow> typeIndex \<noteq> - 1 \<Longrightarrow>
   parseBlock_loop headerNodes nameIndex typeIndex (t3 # tokIter) log =
   parseBlock_loop headerNodes nameIndex typeIndex tokIter
     (log @ [''Invalid number of decl block headers, already got a name and type''])"
  by simp

lemma parseBlock_loop_block_name_only:
  "tok_type b = BracedBlock \<Longrightarrow>
   parseBlock_loop (nm # hs) 0 (- 1) (b # tokIter) log =
   Inr (Some (DefBlockSyntax b (nm # hs) None nm), tokIter, log)"
  by (simp add: make_DefBlockSyntax_def at_def)

lemma at_int:
  "n < length v \<Longrightarrow> at v (int n) = Inr (v ! n)"
  by (simp add: at_def)

lemma at_0:
  "at (x # xs) 0 = Inr x"
  by (simp add: at_def)

lemma parseBlock_loop_block_type_and_name:
  assumes "tok_type b = BracedBlock"
  shows "parseBlock_loop (ty # hs @ nm # hs') (int (Suc (length hs))) 0 (b # tokIter) log =
         Inr (Some (DefBlockSyntax b (ty # hs @ nm # hs') ty nm), tokIter, log)"
proof -
  have "at (ty # hs @ nm # hs') (int (Suc (length hs))) = Inr nm"
    by (subst at_int) simp_all
  with assms show ?thesis
    by (simp add: make_DefBlockSyntax_def at_0 del: of_nat_Suc)
qed

lemma parseBlock_name_only:
  assumes "tok_type t1 = Token" and "tok_type b = BracedBlock" and "\<forall>t \<in> set w. is_trivia t"
  shows "parseBlock (t1 # w @ b # tokIter) log =
         Inr (Some (DefBlockSyntax b (Some (DefNameSyntax t1) # map trivia_node w)
                      None (Some (DefNameSyntax t1))), tokIter, log)"
  using assms
  by (simp add: parseBlock_def parseBlock_loop_first_identifier parseBlock_loop_trivia
        parseBlock_loop_block_name_only del: parseBlock_loop.simps)

lemma parseBlock_type_and_name:
  assumes "tok_type t1 = Token" and "tok_type t2 = Token" and "tok_type b = BracedBlock"
    and "\<forall>t \<in> set w1. is_trivia t" and "\<forall>t \<in> set w2. is_trivia t"
    and "length w1 < 2 ^ 31 - 1"
  shows "parseBlock (t1 # w1 @ t2 # w2 @ b # tokIter) log =
         Inr (Some (DefBlockSyntax b
                      (Some (DefTypeSyntax t1) # map trivia_node w1 @
                       Some (DefNameSyntax t2) # map trivia_node w2)
                      (Some (DefTypeSyntax t1)) (Some (DefNameSyntax t2))), tokIter, log)"
proof -
  have "parseBlock (t1 # w1 @ t2 # w2 @ b # tokIter) log =
        parseBlock_loop (Some (DefNameSyntax t1) # map trivia_node w1) 0 (- 1)
          (t2 # w2 @ b # tokIter) log"
    using assms(1,4)
    by (simp add: parseBlock_def parseBlock_loop_first_identifier parseBlock_loop_trivia
          del: parseBlock_loop.simps)
  also have "\<dots> =
        parseBlock_loop
          (Some (DefTypeSyntax t1) # map trivia_node w1 @ [Some (DefNameSyntax t2)])
          (int (Suc (length (map trivia_node w1)))) 0 (w2 @ b # tokIter) log"
    using assms(1,2,6) by (intro parseBlock_loop_second_identifier) simp_all
  also have "\<dots> =
        parseBlock_loop
          (Some (DefTypeSyntax t1) # map trivia_node w1 @
           Some (DefNameSyntax t2) # map trivia_node w2)
          (int (Suc (length (map trivia_node w1)))) 0 (b # tokIter) log"
    using assms(5) by (simp add: parseBlock_loop_trivia del: parseBlock_loop.simps)
  also have "\<dots> =
        Inr (Some (DefBlockSyntax b
                      (Some (DefTypeSyntax t1) # map trivia_node w1 @
                       Some (DefNameSyntax t2) # map trivia_node w2)
                      (Some (DefTypeSyntax t1)) (Some (DefNameSyntax t2))), tokIter, log)"
    using assms(3) by (rule parseBlock_loop_block_type_and_name)
  finally show ?thesis .
qed

lemma make_DefBlockSyntax_in_range:
  assumes "tok_type b = BracedBlock" and "0 \<le> nameIndex" and "nat nameIndex < length hs"
    and "typeIndex = - 1 \<or> 0 \<le> typeIndex \<and> nat typeIndex < length hs"
  shows "\<exists>ty nm. make_DefBlockSyntax b hs nameIndex typeIndex = Inr (DefBlockSyntax b hs ty nm)"
  using assms by (auto simp: make_DefBlockSyntax_def at_def)

lemma append_headers_trivia:
  "append_headers (map (map_option getString) (map trivia_node w) @ hs) =
     (case append_headers hs of Inl e \<Rightarrow> Inl e | Inr rest \<Rightarrow> Inr (concat (map tok_value w) @ rest))"
  by (induction w) (auto simp: trivia_node_def split: sum.splits)

lemma append_headers_snoc:
  "append_headers (hs @ [Some (Inr s)]) =
     (case append_headers hs of Inl e \<Rightarrow> Inl e | Inr htext \<Rightarrow> Inr (htext @ s))"
  by (induction hs rule: append_headers.induct) (auto split: sum.splits)

lemma append_children_snoc:
  "append_children (cs @ [Some (Inr s)]) =
     (case append_children cs of Inl e \<Rightarrow> Inl e | Inr htext \<Rightarrow> Inr (htext @ s))"
  by (induction cs rule: append_children.induct) (auto split: sum.splits)

lemma append_children_append:
  "append_children cs = Inr s \<Longrightarrow> append_children ds = Inr s' \<Longrightarrow>
   append_children (cs @ ds) = Inr (s @ s')"
  by (induction cs arbitrary: s rule: append_children.induct) (auto split: sum.splits)

section \<open>The loop of parse()\<close>

lemma parse_loop_Nil:
  "parse_loop [] children log = Some (Inr (children, log))"
  by (subst parse_loop.simps) simp

lemma parse_loop_Token:
  "tok_type token = Token \<Longrightarrow>
   parse_loop (token # rest) children log =
     (case parseBlock (token # rest) log of
        Inl e \<Rightarrow> Some (Inl e)
      | Inr (block, rest', log') \<Rightarrow> parse_loop rest' (children @ [block]) log')"
  by (subst parse_loop.simps) simp

lemma parse_loop_Whitespace:
  "tok_type token = Whitespace \<Longrightarrow>
   parse_loop (token # rest) children log =
   parse_loop rest (children @ [Some (DefWhitespaceSyntax token)]) log"
  by (subst parse_loop.simps) (simp add: make_DefWhitespaceSyntax_def)

lemma parse_loop_Comment:
  "tok_type token = EolComment \<or> tok_type token = BlockComment \<Longrightarrow>
   parse_loop (token # rest) children log =
   parse_loop rest (children @ [Some (DefCommentSyntax token)]) log"
  by (subst parse_loop.simps) (auto simp: make_DefCommentSyntax_def)

lemma parse_loop_BracedBlock:
  "tok_type token = BracedBlock \<Longrightarrow>
   parse_loop (token # rest) children log = Some (Inl AssertionFailed)"
  by (subst parse_loop.simps) (simp add: make_DefBlockSyntax_def)

lemma parseBlock_loop_suffix:
  "parseBlock_loop headerNodes nameIndex typeIndex toks log = Inr (block, rest, log') \<Longrightarrow>
   \<exists>pre. toks = pre @ rest"
proof (induction toks arbitrary: headerNodes nameIndex typeIndex log)
  case Nil
  then show ?case by simp
next
  case (Cons token toks)
  have "\<exists>pre. token # toks = pre @ rest"
    if "parseBlock_loop hs ni ti toks lg = Inr (block, rest, log')" for hs ni ti lg
    using Cons.IH [OF that] by (metis append_Cons)
  with Cons.prems show ?case
    by (auto split: TokenType.splits sum.splits if_splits intro: exI [of _ "[token]"])
qed

lemma parse_loop_returns:
  "\<forall>t \<in> set toks. tok_type t \<noteq> Nothing \<Longrightarrow> \<exists>r. parse_loop toks children log = Some r"
proof (induction toks arbitrary: children log rule: length_induct)
  case (1 toks)
  show ?case
  proof (cases toks)
    case Nil
    then show ?thesis
      by (simp add: parse_loop_Nil)
  next
    case (Cons token ts)
    from "1.IH" "1.prems" Cons have ts: "\<exists>r. parse_loop ts cs lg = Some r" for cs lg
      by simp
    show ?thesis
    proof (cases "tok_type token")
      case Nothing
      with "1.prems" Cons show ?thesis by simp
    next
      case Whitespace
      with ts Cons show ?thesis by (simp add: parse_loop_Whitespace)
    next
      case EolComment
      with ts Cons show ?thesis by (simp add: parse_loop_Comment)
    next
      case BlockComment
      with ts Cons show ?thesis by (simp add: parse_loop_Comment)
    next
      case BracedBlock
      with Cons show ?thesis by (simp add: parse_loop_BracedBlock)
    next
      case Token
      show ?thesis
      proof (cases "parseBlock (token # ts) log")
        case (Inl e)
        with Token Cons show ?thesis
          by (simp add: parse_loop_Token)
      next
        case (Inr res)
        obtain block rest log' where res: "res = (block, rest, log')"
          by (cases res) auto
        with Inr Token have
          "parseBlock_loop [Some (DefNameSyntax token)] 0 (- 1) ts log = Inr (block, rest, log')"
          by (simp add: parseBlock_def parseBlock_loop_first_identifier
                del: parseBlock_loop.simps)
        then obtain pre where "ts = pre @ rest"
          using parseBlock_loop_suffix by blast
        with "1.prems" Cons have "length rest < length toks"
          and "\<forall>t \<in> set rest. tok_type t \<noteq> Nothing"
          by auto
        with "1.IH" have "\<exists>r. parse_loop rest (children @ [block]) log' = Some r"
          by blast
        with Inr res Token Cons show ?thesis
          by (simp add: parse_loop_Token)
      qed
    qed
  qed
qed

text \<open>
  The tokeniser never emits a token of type Nothing, so on a text \<^verbatim>\<open>parse()\<close> always
  returns: with a tree, or with one of the failures.
\<close>

lemma parse_returns:
  "\<exists>r. parse str = Some r"
proof (cases "Tokeniser_tokens str")
  case (Inl e)
  then show ?thesis
    by (simp add: parse_def)
next
  case (Inr toks)
  then have "\<forall>t \<in> set toks. tok_type t \<noteq> Nothing"
    using Tokeniser_tokens_proper by blast
  from parse_loop_returns [OF this, of "[]" "[]"] Inr show ?thesis
    by (auto simp: parse_def parse_tokens_def split: sum.splits)
qed

section \<open>The parser on well-formed token sequences\<close>

lemma parseBlock_loop_well_formed:
  assumes "well_formed_from n toks"
    and "header_state n headerNodes nameIndex typeIndex"
    and "append_headers (map (map_option getString) headerNodes) = Inr htext"
    and "length headerNodes + length toks < 2 ^ 31"
  shows "\<exists>block pre rest.
           parseBlock_loop headerNodes nameIndex typeIndex toks log = Inr (Some block, rest, log)
           \<and> toks = pre @ rest \<and> pre \<noteq> [] \<and> well_formed_from 0 rest
           \<and> getString block = Inr (htext @ concat (map tok_value pre))"
  using assms
proof (induction toks arbitrary: n headerNodes nameIndex typeIndex htext)
  case Nil
  then show ?case
    by (auto simp: header_state_def split: if_splits)
next
  case (Cons token toks)
  show ?case
  proof (cases "tok_type token")
    case Nothing
    with Cons.prems(1) show ?thesis by simp
  next
    case Whitespace
    let ?hs = "headerNodes @ [Some (DefWhitespaceSyntax token)]"
    have "header_state n ?hs nameIndex typeIndex"
      using Cons.prems(2) by (auto simp: header_state_def split: if_splits)
    moreover have "append_headers (map (map_option getString) ?hs) = Inr (htext @ tok_value token)"
      using Cons.prems(3) by (simp add: append_headers_snoc)
    moreover have "well_formed_from n toks" and "length ?hs + length toks < 2 ^ 31"
      using Cons.prems(1,4) Whitespace by simp_all
    ultimately obtain block pre rest where
      "parseBlock_loop ?hs nameIndex typeIndex toks log = Inr (Some block, rest, log)"
      "toks = pre @ rest" "well_formed_from 0 rest"
      "getString block = Inr ((htext @ tok_value token) @ concat (map tok_value pre))"
      using Cons.IH [of n ?hs nameIndex typeIndex "htext @ tok_value token"] by blast
    with Whitespace show ?thesis
      by (intro exI [of _ block] exI [of _ "token # pre"] exI [of _ rest])
        (simp add: make_DefWhitespaceSyntax_def)
  next
    case EolComment
    let ?hs = "headerNodes @ [Some (DefCommentSyntax token)]"
    have "header_state n ?hs nameIndex typeIndex"
      using Cons.prems(2) by (auto simp: header_state_def split: if_splits)
    moreover have "append_headers (map (map_option getString) ?hs) = Inr (htext @ tok_value token)"
      using Cons.prems(3) by (simp add: append_headers_snoc)
    moreover have "well_formed_from n toks" and "length ?hs + length toks < 2 ^ 31"
      using Cons.prems(1,4) EolComment by simp_all
    ultimately obtain block pre rest where
      "parseBlock_loop ?hs nameIndex typeIndex toks log = Inr (Some block, rest, log)"
      "toks = pre @ rest" "well_formed_from 0 rest"
      "getString block = Inr ((htext @ tok_value token) @ concat (map tok_value pre))"
      using Cons.IH [of n ?hs nameIndex typeIndex "htext @ tok_value token"] by blast
    with EolComment show ?thesis
      by (intro exI [of _ block] exI [of _ "token # pre"] exI [of _ rest])
        (simp add: make_DefCommentSyntax_def)
  next
    case BlockComment
    let ?hs = "headerNodes @ [Some (DefCommentSyntax token)]"
    have "header_state n ?hs nameIndex typeIndex"
      using Cons.prems(2) by (auto simp: header_state_def split: if_splits)
    moreover have "append_headers (map (map_option getString) ?hs) = Inr (htext @ tok_value token)"
      using Cons.prems(3) by (simp add: append_headers_snoc)
    moreover have "well_formed_from n toks" and "length ?hs + length toks < 2 ^ 31"
      using Cons.prems(1,4) BlockComment by simp_all
    ultimately obtain block pre rest where
      "parseBlock_loop ?hs nameIndex typeIndex toks log = Inr (Some block, rest, log)"
      "toks = pre @ rest" "well_formed_from 0 rest"
      "getString block = Inr ((htext @ tok_value token) @ concat (map tok_value pre))"
      using Cons.IH [of n ?hs nameIndex typeIndex "htext @ tok_value token"] by blast
    with BlockComment show ?thesis
      by (intro exI [of _ block] exI [of _ "token # pre"] exI [of _ rest])
        (simp add: make_DefCommentSyntax_def)
  next
    case BracedBlock
    from Cons.prems(1) BracedBlock have rest: "well_formed_from 0 toks" and n: "n = 1 \<or> n = 2"
      using Cons.prems(2) by (auto simp: header_state_def split: if_splits)
    from n Cons.prems(2) have
      "0 \<le> nameIndex" "nat nameIndex < length headerNodes"
      "typeIndex = - 1 \<or> 0 \<le> typeIndex \<and> nat typeIndex < length headerNodes"
      by (auto simp: header_state_def split: if_splits)
    from make_DefBlockSyntax_in_range [OF BracedBlock this] obtain ty nm where
      "make_DefBlockSyntax token headerNodes nameIndex typeIndex =
         Inr (DefBlockSyntax token headerNodes ty nm)"
      by blast
    with BracedBlock rest Cons.prems(3) show ?thesis
      by (intro exI [of _ "DefBlockSyntax token headerNodes ty nm"] exI [of _ "[token]"]
            exI [of _ toks]) simp
  next
    case Token
    from Cons.prems(1,2) Token have n: "n = 1" and rest: "well_formed_from 2 toks"
      by (auto simp: header_state_def numeral_2_eq_2 split: if_splits)
    from n Cons.prems(2) obtain t hs where
      hs: "headerNodes = Some (DefNameSyntax t) # hs" "tok_type t = Token"
      and idx: "nameIndex = 0" "typeIndex = - 1"
      by (auto simp: header_state_def)
    let ?hs = "Some (DefTypeSyntax t) # hs @ [Some (DefNameSyntax token)]"
    from Cons.prems(4) hs have "length hs < 2 ^ 31 - 1"
      by simp
    from parseBlock_loop_second_identifier [OF Token hs(2) this, of toks log] have step:
      "parseBlock_loop headerNodes nameIndex typeIndex (token # toks) log =
       parseBlock_loop ?hs (int (Suc (length hs))) 0 toks log"
      by (simp only: hs(1) idx)
    have "header_state 2 ?hs (int (Suc (length hs))) 0"
      by (simp add: header_state_def)
    moreover have "append_headers (map (map_option getString) ?hs) = Inr (htext @ tok_value token)"
      using Cons.prems(3) hs append_headers_snoc [of "map (map_option getString) hs" "tok_value token"]
      by (auto split: sum.splits)
    moreover have "length ?hs + length toks < 2 ^ 31"
      using Cons.prems(4) hs by simp
    ultimately obtain block pre rest' where
      "parseBlock_loop ?hs (int (Suc (length hs))) 0 toks log = Inr (Some block, rest', log)"
      "toks = pre @ rest'" "well_formed_from 0 rest'"
      "getString block = Inr ((htext @ tok_value token) @ concat (map tok_value pre))"
      using Cons.IH [OF rest, of ?hs "int (Suc (length hs))" 0 "htext @ tok_value token"] by blast
    with step show ?thesis
      by (intro exI [of _ block] exI [of _ "token # pre"] exI [of _ rest']) simp
  qed
qed

lemma parse_loop_well_formed:
  "well_formed_from 0 toks \<Longrightarrow> length toks < 2 ^ 31 \<Longrightarrow>
   \<exists>nodes. parse_loop toks children log = Some (Inr (children @ nodes, log))
          \<and> append_children (map (map_option getString) nodes) = Inr (concat (map tok_value toks))"
proof (induction toks arbitrary: children rule: length_induct)
  case (1 toks)
  show ?case
  proof (cases toks)
    case Nil
    then show ?thesis
      by (simp add: parse_loop_Nil)
  next
    case (Cons token ts)
    have trivia: ?thesis
      if step: "parse_loop (token # ts) children log = parse_loop ts (children @ [Some node]) log"
        and wf: "well_formed_from 0 ts"
        and str: "getString node = Inr (tok_value token)" for node
    proof -
      from Cons "1.prems"(2) have "length ts < length toks" "length ts < 2 ^ 31"
        by simp_all
      with "1.IH" wf obtain nodes where
        "parse_loop ts (children @ [Some node]) log = Some (Inr ((children @ [Some node]) @ nodes, log))"
        "append_children (map (map_option getString) nodes) = Inr (concat (map tok_value ts))"
        by blast
      with step str Cons show ?thesis
        by (intro exI [of _ "Some node # nodes"]) simp
    qed
    show ?thesis
    proof (cases "tok_type token")
      case Nothing
      with "1.prems"(1) Cons show ?thesis by simp
    next
      case Whitespace
      with "1.prems"(1) Cons trivia [of "DefWhitespaceSyntax token"] show ?thesis
        by (simp add: parse_loop_Whitespace)
    next
      case EolComment
      with "1.prems"(1) Cons trivia [of "DefCommentSyntax token"] show ?thesis
        by (simp add: parse_loop_Comment)
    next
      case BlockComment
      with "1.prems"(1) Cons trivia [of "DefCommentSyntax token"] show ?thesis
        by (simp add: parse_loop_Comment)
    next
      case BracedBlock
      with "1.prems"(1) Cons show ?thesis by simp
    next
      case Token
      from "1.prems"(1) Cons Token have wf: "well_formed_from 1 ts"
        by simp
      have "header_state 1 [Some (DefNameSyntax token)] 0 (- 1)"
        using Token by (simp add: header_state_def)
      moreover have "append_headers (map (map_option getString) [Some (DefNameSyntax token)]) =
          Inr (tok_value token)"
        by simp
      moreover have "length [Some (DefNameSyntax token)] + length ts < 2 ^ 31"
        using "1.prems"(2) Cons by simp
      ultimately obtain block pre rest where
        blk: "parseBlock_loop [Some (DefNameSyntax token)] 0 (- 1) ts log = Inr (Some block, rest, log)"
        and ts: "ts = pre @ rest" "pre \<noteq> []" and rest: "well_formed_from 0 rest"
        and str: "getString block = Inr (tok_value token @ concat (map tok_value pre))"
        using parseBlock_loop_well_formed [OF wf, of "[Some (DefNameSyntax token)]" 0 "- 1"
            "tok_value token" log]
        by blast
      from blk Token have step:
        "parse_loop (token # ts) children log = parse_loop rest (children @ [Some block]) log"
        by (simp add: parse_loop_Token parseBlock_def parseBlock_loop_first_identifier
              del: parseBlock_loop.simps)
      from ts Cons "1.prems"(2) have "length rest < length toks" "length rest < 2 ^ 31"
        by simp_all
      with "1.IH" rest obtain nodes where
        "parse_loop rest (children @ [Some block]) log =
           Some (Inr ((children @ [Some block]) @ nodes, log))"
        "append_children (map (map_option getString) nodes) = Inr (concat (map tok_value rest))"
        by blast
      with step str Cons ts show ?thesis
        by (intro exI [of _ "Some block # nodes"]) simp
    qed
  qed
qed

text \<open>
  A well-formed token sequence parses without an error and without a warning, and the
  string of the tree is the texts of the tokens one after the other.
\<close>

lemma parse_tokens_well_formed:
  assumes "well_formed toks" and "length toks < 2 ^ 31"
  shows "\<exists>tree. parse_tokens toks = Some (Inr (tree, []))
              \<and> DefSyntaxTree_getString tree = Inr (concat (map tok_value toks))"
proof -
  from assms obtain nodes where
    "parse_loop toks [] [] = Some (Inr ([] @ nodes, []))"
    "append_children (map (map_option getString) nodes) = Inr (concat (map tok_value toks))"
    using parse_loop_well_formed [of toks "[]" "[]"] by (auto simp: well_formed_def)
  then show ?thesis
    by (simp add: parse_tokens_def DefSyntaxTree_getString_def)
qed

text \<open>
  Round trip: a text whose tokens form a well-formed sequence, none of the bare tokens
  beginning with a slash, is the string of its tree.
\<close>

lemma round_trip_well_formed:
  assumes "Tokeniser_tokens str = Inr toks" and "well_formed toks"
    and "\<forall>t \<in> set toks. tok_type t = Token \<longrightarrow> hd (tok_value t) \<noteq> CHR ''/''"
    and "length toks < 2 ^ 31"
  shows "parse_getString str = Some (Inr str) \<and> parse_warnings str = Some (Inr [])"
  using parse_tokens_well_formed [OF assms(2,4)] Tokeniser_tokens_lossless [OF assms(1,3)] assms(1)
  by (auto simp: parse_getString_def parse_warnings_def parse_def)

section \<open>The tokeniser: round trip, bare tokens, end of input\<close>

text \<open>
  C1. The string of the tree parsed from a text of whitespace, comments and well-formed
  declaration blocks should be the text, byte for byte. The text \<^verbatim>\<open>/a {}\<close> is a
  declaration with the name \<^verbatim>\<open>/a\<close> and an empty block. Its tokens come out as \<^verbatim>\<open>//\<close>,
  a blank and \<^verbatim>\<open>{}\<close>, a well-formed sequence, and the string of the tree is
  \<^verbatim>\<open>// {}\<close>, not the text. Where no bare token begins with a slash the round trip
  holds (\<open>round_trip_well_formed\<close> above).
\<close>

theorem C1_round_trip_fails_at_slash:
  "Tokeniser_tokens ''/a {}'' =
     Inr [\<lparr>tok_type = Token, tok_value = ''//''\<rparr>,
          \<lparr>tok_type = Whitespace, tok_value = '' ''\<rparr>,
          \<lparr>tok_type = BracedBlock, tok_value = ''{}''\<rparr>]
   \<and> well_formed
       [\<lparr>tok_type = Token, tok_value = ''//''\<rparr>,
        \<lparr>tok_type = Whitespace, tok_value = '' ''\<rparr>,
        \<lparr>tok_type = BracedBlock, tok_value = ''{}''\<rparr>]
   \<and> parse_getString ''/a {}'' = Some (Inr ''// {}'')"
  by code_simp

text \<open>
  C2. A bare token that starts at a \<^verbatim>\<open>/\<close> opening no comment should hold that slash
  once and go on with the character after it. On the text \<^verbatim>\<open>/a b\<close> the tokeniser
  returns the token \<^verbatim>\<open>//\<close>: the slash twice, the \<^verbatim>\<open>a\<close> stepped over and lost, the
  cursor left before the blank. Inside a token the same slash is handled as the claim
  says: \<^verbatim>\<open>a/b c\<close> gives the token \<^verbatim>\<open>a/b\<close>.
\<close>

theorem C2_slash_at_token_start_doubled:
  "DefBlockSyntaxTokeniserFunc ''/a b'' = Inr (True, \<lparr>tok_type = Token, tok_value = ''//''\<rparr>, '' b'')
   \<and> DefBlockSyntaxTokeniserFunc ''a/b c'' = Inr (True, \<lparr>tok_type = Token, tok_value = ''a/b''\<rparr>, '' c'')"
  by code_simp

text \<open>
  C5. The tokeniser should return on every cursor, with a token or with ``no further
  tokens''. On a cursor whose only remaining character is a \<^verbatim>\<open>/\<close> the second
  \<^verbatim>\<open>++next\<close> of state Searching moves the cursor past the end marker, and the loop
  condition \<^verbatim>\<open>next != end\<close> holds again: the call neither emits a token nor reports
  exhaustion. The text \<^verbatim>\<open>a /\<close> brings the second call there, so its token stream
  fails as well.
\<close>

theorem C5_final_slash_runs_past_end:
  "DefBlockSyntaxTokeniserFunc ''/'' = Inl IteratorPastEnd
   \<and> Tokeniser_tokens ''a /'' = Inl IteratorPastEnd"
  by code_simp

section \<open>The tokeniser: quoted strings inside a braced block\<close>

text \<open>
  C6. The text \<^verbatim>\<open>{ key "a } b" more }\<close> is one braced block token, from the first
  brace to the last. In general: in state BracedBlock, at a quote followed by characters
  \<open>q\<close> without a quote and by the closing quote, the loop appends all of it and is back
  in state BracedBlock with the counter \<open>openedBlocks\<close> it had at the opening quote,
  whatever braces \<open>q\<close> holds.
\<close>

theorem C6_quoted_braces_are_not_counted:
  assumes "CHR 0x22 \<notin> set q"
  shows \<open>Tokeniser_tokens ''{ key "a } b" more }'' =
           Inr [\<lparr>tok_type = BracedBlock, tok_value = ''{ key "a } b" more }''\<rparr>]
         \<and> tokenise_loop State_BracedBlock openedBlocks tok (CHR 0x22 # q @ CHR 0x22 # rest) =
           tokenise_loop State_BracedBlock openedBlocks
             (tok\<lparr>tok_value := tok_value tok @ CHR 0x22 # q @ [CHR 0x22]\<rparr>) rest\<close>
proof
  show \<open>Tokeniser_tokens ''{ key "a } b" more }'' =
          Inr [\<lparr>tok_type = BracedBlock, tok_value = ''{ key "a } b" more }''\<rparr>]\<close>
    by code_simp
  show "tokenise_loop State_BracedBlock openedBlocks tok (CHR 0x22 # q @ CHR 0x22 # rest) =
          tokenise_loop State_BracedBlock openedBlocks
            (tok\<lparr>tok_value := tok_value tok @ CHR 0x22 # q @ [CHR 0x22]\<rparr>) rest"
    using quoted_string_run [OF assms, of openedBlocks "tok\<lparr>tok_value := tok_value tok @ [CHR 0x22]\<rparr>" rest]
    by (simp add: Let_def OpeningBrace_def ClosingBrace_def)
qed

theorem C6_quoted_braces_witness:
  \<open>CHR 0x22 \<notin> set ''a } { b''
   \<and> tokenise_loop State_BracedBlock 1 \<lparr>tok_type = BracedBlock, tok_value = ''{ key ''\<rparr>
       (CHR 0x22 # ''a } { b'' @ CHR 0x22 # '' more } x'') =
     Inr (True, \<lparr>tok_type = BracedBlock, tok_value = ''{ key "a } { b" more }''\<rparr>, '' x'')\<close>
proof -
  have h: "CHR 0x22 \<notin> set ''a } { b''"
    by simp
  have r: \<open>tokenise_loop State_BracedBlock 1
             (\<lparr>tok_type = BracedBlock, tok_value = ''{ key ''\<rparr>
                \<lparr>tok_value := tok_value \<lparr>tok_type = BracedBlock, tok_value = ''{ key ''\<rparr>
                   @ CHR 0x22 # ''a } { b'' @ [CHR 0x22]\<rparr>) '' more } x'' =
           Inr (True, \<lparr>tok_type = BracedBlock, tok_value = ''{ key "a } { b" more }''\<rparr>, '' x'')\<close>
    by code_simp
  from C6_quoted_braces_are_not_counted [OF h, of 1 "\<lparr>tok_type = BracedBlock, tok_value = ''{ key ''\<rparr>" "'' more } x''"]
  have "tokenise_loop State_BracedBlock 1 \<lparr>tok_type = BracedBlock, tok_value = ''{ key ''\<rparr>
          (CHR 0x22 # ''a } { b'' @ CHR 0x22 # '' more } x'') =
        tokenise_loop State_BracedBlock 1
             (\<lparr>tok_type = BracedBlock, tok_value = ''{ key ''\<rparr>
                \<lparr>tok_value := tok_value \<lparr>tok_type = BracedBlock, tok_value = ''{ key ''\<rparr>
                   @ CHR 0x22 # ''a } { b'' @ [CHR 0x22]\<rparr>) '' more } x''"
    by (rule conjunct2)
  with r h show ?thesis
    by (simp only: simp_thms)
qed

section \<open>The parser: anonymous blocks and unfinished headers\<close>

text \<open>
  C3. A braced block with no identifier before it should become an anonymous block
  node with every assertion of the constructor holding. \<^verbatim>\<open>parse()\<close> calls the
  constructor without the two indices, so \<open>nameIndex\<close> is \<open>-1\<close> and the constructor's
  \<^verbatim>\<open>assert(nameIndex >= 0)\<close> fails, for any block token and on the text \<^verbatim>\<open>{ }\<close>.
\<close>

theorem C3_anonymous_block_fails_assertion:
  "make_DefBlockSyntax blockToken [] (- 1) (- 1) = Inl AssertionFailed
   \<and> parse ''{ }'' = Some (Inl AssertionFailed)"
proof
  show "make_DefBlockSyntax blockToken [] (- 1) (- 1) = Inl AssertionFailed"
    by (simp add: make_DefBlockSyntax_def)
  show "parse ''{ }'' = Some (Inl AssertionFailed)"
    by code_simp
qed

text \<open>
  C4. Every child of the root should be non-null. On the text \<^verbatim>\<open>abc\<close>, a bare token
  that no braced block follows, \<^verbatim>\<open>parseBlock\<close> runs out of tokens and returns its null
  \<^verbatim>\<open>block\<close>, \<^verbatim>\<open>parse()\<close> appends it to the root, and \<^verbatim>\<open>getString()\<close> on the tree
  dereferences it.
\<close>

theorem C4_unfinished_header_gives_null_child:
  "parse ''abc'' = Some (Inr (DefSyntaxTree (DefSyntaxNode Root [None]), []))
   \<and> DefSyntaxTree_getString (DefSyntaxTree (DefSyntaxNode Root [None])) = Inl NullPointerDereference"
  by code_simp

section \<open>The parser: headers with two and three identifiers\<close>

text \<open>
  C7. Two bare tokens and a braced block, with any whitespace and comments \<open>w1\<close>, \<open>w2\<close>
  after each bare token (none, for the bare sequence of the claim): one block under the
  root, its type node a \<^verbatim>\<open>DeclType\<close> with the first token's text, its name node a
  \<^verbatim>\<open>DeclName\<close> with the second's. One bare token and a braced block: one block without
  a type node, its name node with that token's text. The index of the name is an
  \<^verbatim>\<open>int\<close>, so the first token has fewer than \<open>2 ^ 31 - 1\<close> tokens after it before the
  second.
\<close>

theorem C7_header_reclassification:
  assumes "tok_type t1 = Token" and "tok_type t2 = Token" and "tok_type b = BracedBlock"
    and "\<forall>t \<in> set w1. is_trivia t" and "\<forall>t \<in> set w2. is_trivia t"
    and "length w1 < 2 ^ 31 - 1"
  shows "(\<exists>block.
            parse_tokens (t1 # w1 @ t2 # w2 @ [b]) =
              Some (Inr (DefSyntaxTree (DefSyntaxNode Root [Some block]), []))
            \<and> getType block = DeclBlock
            \<and> map_option getType (getBlockType block) = Some DeclType
            \<and> map_option getString (getBlockType block) = Some (Inr (tok_value t1))
            \<and> map_option getType (getName block) = Some DeclName
            \<and> map_option getString (getName block) = Some (Inr (tok_value t2)))
       \<and> (\<exists>block.
            parse_tokens (t1 # w2 @ [b]) =
              Some (Inr (DefSyntaxTree (DefSyntaxNode Root [Some block]), []))
            \<and> getType block = DeclBlock
            \<and> getBlockType block = None
            \<and> map_option getType (getName block) = Some DeclName
            \<and> map_option getString (getName block) = Some (Inr (tok_value t1)))"
proof
  have "parse_tokens (t1 # w1 @ t2 # w2 @ [b]) =
          Some (Inr (DefSyntaxTree (DefSyntaxNode Root
            [Some (DefBlockSyntax b
                     (Some (DefTypeSyntax t1) # map trivia_node w1 @
                      Some (DefNameSyntax t2) # map trivia_node w2)
                     (Some (DefTypeSyntax t1)) (Some (DefNameSyntax t2)))]), []))"
    using assms(1) parseBlock_type_and_name [OF assms, of "[]" "[]"]
    by (simp add: parse_tokens_def parse_loop_Token parse_loop_Nil)
  then show "\<exists>block.
            parse_tokens (t1 # w1 @ t2 # w2 @ [b]) =
              Some (Inr (DefSyntaxTree (DefSyntaxNode Root [Some block]), []))
            \<and> getType block = DeclBlock
            \<and> map_option getType (getBlockType block) = Some DeclType
            \<and> map_option getString (getBlockType block) = Some (Inr (tok_value t1))
            \<and> map_option getType (getName block) = Some DeclName
            \<and> map_option getString (getName block) = Some (Inr (tok_value t2))"
    by simp
next
  have "parse_tokens (t1 # w2 @ [b]) =
          Some (Inr (DefSyntaxTree (DefSyntaxNode Root
            [Some (DefBlockSyntax b (Some (DefNameSyntax t1) # map trivia_node w2)
                     None (Some (DefNameSyntax t1)))]), []))"
    using assms(1) parseBlock_name_only [OF assms(1,3,5), of "[]" "[]"]
    by (simp add: parse_tokens_def parse_loop_Token parse_loop_Nil)
  then show "\<exists>block.
            parse_tokens (t1 # w2 @ [b]) =
              Some (Inr (DefSyntaxTree (DefSyntaxNode Root [Some block]), []))
            \<and> getType block = DeclBlock
            \<and> getBlockType block = None
            \<and> map_option getType (getName block) = Some DeclName
            \<and> map_option getString (getName block) = Some (Inr (tok_value t1))"
    by simp
qed

theorem C7_header_reclassification_witness:
  "(\<exists>block.
      parse_tokens
        [\<lparr>tok_type = Token, tok_value = ''material''\<rparr>,
         \<lparr>tok_type = Token, tok_value = ''}textures/x''\<rparr>,
         \<lparr>tok_type = BracedBlock, tok_value = ''{ }''\<rparr>] =
        Some (Inr (DefSyntaxTree (DefSyntaxNode Root [Some block]), []))
      \<and> getType block = DeclBlock
      \<and> map_option getType (getBlockType block) = Some DeclType
      \<and> map_option getString (getBlockType block) = Some (Inr ''material'')
      \<and> map_option getType (getName block) = Some DeclName
      \<and> map_option getString (getName block) = Some (Inr ''}textures/x''))
   \<and> (\<exists>block.
      parse_tokens
        [\<lparr>tok_type = Token, tok_value = ''material''\<rparr>,
         \<lparr>tok_type = BracedBlock, tok_value = ''{ }''\<rparr>] =
        Some (Inr (DefSyntaxTree (DefSyntaxNode Root [Some block]), []))
      \<and> getType block = DeclBlock
      \<and> getBlockType block = None
      \<and> map_option getType (getName block) = Some DeclName
      \<and> map_option getString (getName block) = Some (Inr ''material''))
   \<and> Tokeniser_tokens ''material}textures/x{ }'' =
        Inr [\<lparr>tok_type = Token, tok_value = ''material''\<rparr>,
             \<lparr>tok_type = Token, tok_value = ''}textures/x''\<rparr>,
             \<lparr>tok_type = BracedBlock, tok_value = ''{ }''\<rparr>]"
proof -
  have toks: "Tokeniser_tokens ''material}textures/x{ }'' =
        Inr [\<lparr>tok_type = Token, tok_value = ''material''\<rparr>,
             \<lparr>tok_type = Token, tok_value = ''}textures/x''\<rparr>,
             \<lparr>tok_type = BracedBlock, tok_value = ''{ }''\<rparr>]"
    by code_simp
  show ?thesis
    using toks
      C7_header_reclassification
        [of "\<lparr>tok_type = Token, tok_value = ''material''\<rparr>"
            "\<lparr>tok_type = Token, tok_value = ''}textures/x''\<rparr>"
            "\<lparr>tok_type = BracedBlock, tok_value = ''{ }''\<rparr>" "[]" "[]"]
    by simp
qed

text \<open>
  C9. A third bare token before the braced block: the loop of \<^verbatim>\<open>parse()\<close> on such a
  header, followed by any tokens \<open>rest\<close>, logs the warning, appends one block and goes
  on with \<open>rest\<close>. The block has the first token as its type and the second as its name,
  and its text is the text of all the header's tokens but the third, which is kept
  nowhere.
\<close>

theorem C9_third_identifier_discarded:
  assumes "tok_type t1 = Token" and "tok_type t2 = Token" and "tok_type t3 = Token"
    and "tok_type b = BracedBlock"
    and "\<forall>t \<in> set w1. is_trivia t" and "\<forall>t \<in> set w2. is_trivia t"
    and "\<forall>t \<in> set w3. is_trivia t"
    and "length w1 < 2 ^ 31 - 1"
  shows "\<exists>block.
           parse_loop (t1 # w1 @ t2 # w2 @ t3 # w3 @ b # rest) children log =
             parse_loop rest (children @ [Some block])
               (log @ [''Invalid number of decl block headers, already got a name and type''])
           \<and> getType block = DeclBlock
           \<and> map_option getString (getBlockType block) = Some (Inr (tok_value t1))
           \<and> map_option getString (getName block) = Some (Inr (tok_value t2))
           \<and> getString block = Inr (concat (map tok_value (t1 # w1 @ t2 # w2 @ w3 @ [b])))"
proof -
  let ?warning = "''Invalid number of decl block headers, already got a name and type''"
  let ?hs = "Some (DefTypeSyntax t1) # map trivia_node w1 @
             Some (DefNameSyntax t2) # map trivia_node (w2 @ w3)"
  let ?block = "DefBlockSyntax b ?hs (Some (DefTypeSyntax t1)) (Some (DefNameSyntax t2))"
  have "parseBlock (t1 # w1 @ t2 # w2 @ t3 # w3 @ b # rest) log =
        parseBlock_loop (Some (DefNameSyntax t1) # map trivia_node w1) 0 (- 1)
          (t2 # w2 @ t3 # w3 @ b # rest) log"
    using assms(1,5)
    by (simp add: parseBlock_def parseBlock_loop_first_identifier parseBlock_loop_trivia
          del: parseBlock_loop.simps)
  also have "\<dots> =
        parseBlock_loop
          (Some (DefTypeSyntax t1) # map trivia_node w1 @ [Some (DefNameSyntax t2)])
          (int (Suc (length (map trivia_node w1)))) 0 (w2 @ t3 # w3 @ b # rest) log"
    using assms(1,2,8) by (intro parseBlock_loop_second_identifier) simp_all
  also have "\<dots> =
        parseBlock_loop
          (Some (DefTypeSyntax t1) # map trivia_node w1 @
           Some (DefNameSyntax t2) # map trivia_node w2)
          (int (Suc (length (map trivia_node w1)))) 0 (t3 # w3 @ b # rest) log"
    using assms(6) by (simp add: parseBlock_loop_trivia del: parseBlock_loop.simps)
  also have "\<dots> =
        parseBlock_loop
          (Some (DefTypeSyntax t1) # map trivia_node w1 @
           Some (DefNameSyntax t2) # map trivia_node w2)
          (int (Suc (length (map trivia_node w1)))) 0 (w3 @ b # rest) (log @ [?warning])"
    using assms(3) by (intro parseBlock_loop_extra_identifier) simp_all
  also have "\<dots> =
        parseBlock_loop ?hs (int (Suc (length (map trivia_node w1)))) 0 (b # rest)
          (log @ [?warning])"
    using assms(7) by (simp add: parseBlock_loop_trivia del: parseBlock_loop.simps)
  also have "\<dots> = Inr (Some ?block, rest, log @ [?warning])"
    using assms(4) parseBlock_loop_block_type_and_name
      [of b "Some (DefTypeSyntax t1)" "map trivia_node w1" "Some (DefNameSyntax t2)"
          "map trivia_node (w2 @ w3)" rest "log @ [?warning]"]
    by simp
  finally have "parse_loop (t1 # w1 @ t2 # w2 @ t3 # w3 @ b # rest) children log =
      parse_loop rest (children @ [Some ?block]) (log @ [?warning])"
    using assms(1) by (simp add: parse_loop_Token)
  moreover have "getString ?block = Inr (concat (map tok_value (t1 # w1 @ t2 # w2 @ w3 @ [b])))"
    using append_headers_trivia [of w1 "Some (Inr (tok_value t2)) #
        map (map_option getString) (map trivia_node (w2 @ w3))"]
      append_headers_trivia [of "w2 @ w3" "[]"]
    by simp
  ultimately show ?thesis
    by (intro exI [of _ ?block]) simp
qed

theorem C9_third_identifier_discarded_witness:
  "(\<exists>block.
      parse_loop
        [\<lparr>tok_type = Token, tok_value = ''a''\<rparr>,
         \<lparr>tok_type = Whitespace, tok_value = '' ''\<rparr>,
         \<lparr>tok_type = Token, tok_value = ''b''\<rparr>,
         \<lparr>tok_type = Whitespace, tok_value = '' ''\<rparr>,
         \<lparr>tok_type = Token, tok_value = ''c''\<rparr>,
         \<lparr>tok_type = Whitespace, tok_value = '' ''\<rparr>,
         \<lparr>tok_type = BracedBlock, tok_value = ''{x}''\<rparr>,
         \<lparr>tok_type = Whitespace, tok_value = '' ''\<rparr>,
         \<lparr>tok_type = Token, tok_value = ''d''\<rparr>,
         \<lparr>tok_type = Whitespace, tok_value = '' ''\<rparr>,
         \<lparr>tok_type = BracedBlock, tok_value = ''{y}''\<rparr>] [] [] =
        parse_loop
          [\<lparr>tok_type = Whitespace, tok_value = '' ''\<rparr>,
           \<lparr>tok_type = Token, tok_value = ''d''\<rparr>,
           \<lparr>tok_type = Whitespace, tok_value = '' ''\<rparr>,
           \<lparr>tok_type = BracedBlock, tok_value = ''{y}''\<rparr>]
          [Some block]
          [''Invalid number of decl block headers, already got a name and type'']
      \<and> getType block = DeclBlock
      \<and> map_option getString (getBlockType block) = Some (Inr ''a'')
      \<and> map_option getString (getName block) = Some (Inr ''b'')
      \<and> getString block = Inr ''a b  {x}'')
   \<and> parse_getString ''a b c {x} d {y}'' = Some (Inr ''a b  {x} d {y}'')
   \<and> parse_warnings ''a b c {x} d {y}'' =
       Some (Inr [''Invalid number of decl block headers, already got a name and type''])"
proof -
  have "parse_getString ''a b c {x} d {y}'' = Some (Inr ''a b  {x} d {y}'')
      \<and> parse_warnings ''a b c {x} d {y}'' =
          Some (Inr [''Invalid number of decl block headers, already got a name and type''])"
    by code_simp
  then show ?thesis
    using C9_third_identifier_discarded
      [of "\<lparr>tok_type = Token, tok_value = ''a''\<rparr>"
          "\<lparr>tok_type = Token, tok_value = ''b''\<rparr>"
          "\<lparr>tok_type = Token, tok_value = ''c''\<rparr>"
          "\<lparr>tok_type = BracedBlock, tok_value = ''{x}''\<rparr>"
          "[\<lparr>tok_type = Whitespace, tok_value = '' ''\<rparr>]"
          "[\<lparr>tok_type = Whitespace, tok_value = '' ''\<rparr>]"
          "[\<lparr>tok_type = Whitespace, tok_value = '' ''\<rparr>]"
          "[\<lparr>tok_type = Whitespace, tok_value = '' ''\<rparr>,
            \<lparr>tok_type = Token, tok_value = ''d''\<rparr>,
            \<lparr>tok_type = Whitespace, tok_value = '' ''\<rparr>,
            \<lparr>tok_type = BracedBlock, tok_value = ''{y}''\<rparr>]"
          "[]" "[]"]
    by (simp add: is_trivia_def)
qed

section \<open>Block contents and registration\<close>

text \<open>
  C8. The contents of a closed block should be its token without the outermost pair of
  braces. On the text \<^verbatim>\<open>x {{a}}\<close> the block token is \<^verbatim>\<open>{{a}}\<close>, closed at depth
  zero, and its contents between the outer braces are \<^verbatim>\<open>{a}\<close>; \<^verbatim>\<open>getBlockContents\<close>
  trims every leading and trailing brace and returns \<^verbatim>\<open>a\<close>.
\<close>

theorem C8_getBlockContents_trims_inner_braces:
  "parse ''x {{a}}'' =
     Some (Inr (DefSyntaxTree (DefSyntaxNode Root
       [Some (DefBlockSyntax \<lparr>tok_type = BracedBlock, tok_value = ''{{a}}''\<rparr>
          [Some (DefNameSyntax \<lparr>tok_type = Token, tok_value = ''x''\<rparr>),
           Some (DefWhitespaceSyntax \<lparr>tok_type = Whitespace, tok_value = '' ''\<rparr>)]
          None
          (Some (DefNameSyntax \<lparr>tok_type = Token, tok_value = ''x''\<rparr>)))]), []))
   \<and> getBlockContents
       (Some (DefBlockSyntax \<lparr>tok_type = BracedBlock, tok_value = ''{{a}}''\<rparr>
          [Some (DefNameSyntax \<lparr>tok_type = Token, tok_value = ''x''\<rparr>),
           Some (DefWhitespaceSyntax \<lparr>tok_type = Whitespace, tok_value = '' ''\<rparr>)]
          None
          (Some (DefNameSyntax \<lparr>tok_type = Token, tok_value = ''x''\<rparr>)))) = Inr ''a''"
  by code_simp

lemma registerDeclType_binds:
  "registerDeclType typeName creator m = Inr m' \<Longrightarrow> creatorsByTypename m' typeName = Some creator"
  by (auto simp: registerDeclType_def split: if_splits)

text \<open>
  C10. Registering a type name that is already bound fails with ``already
  registered'', whatever creator is passed, and yields no changed registry.
\<close>

theorem C10_registerDeclType_twice_fails:
  assumes "creatorsByTypename m typeName \<noteq> None"
  shows "registerDeclType typeName creator m = Inl (LogicError ''already registered'')"
  using assms by (simp add: registerDeclType_def)

theorem C10_registerDeclType_twice_witness:
  "\<exists>m'. registerDeclType ''testdecl'' \<lparr>instance_id = 1, getDeclType = ''Material''\<rparr>
           \<lparr>creatorsByTypename = Map.empty, creatorsByType = Map.empty\<rparr> = Inr m'
        \<and> creatorsByTypename m' ''testdecl'' \<noteq> None
        \<and> registerDeclType ''testdecl'' \<lparr>instance_id = 1, getDeclType = ''Material''\<rparr> m' =
            Inl (LogicError ''already registered'')
        \<and> registerDeclType ''testdecl'' \<lparr>instance_id = 2, getDeclType = ''Material''\<rparr> m' =
            Inl (LogicError ''already registered'')"
proof -
  obtain m' where r:
    "registerDeclType ''testdecl'' \<lparr>instance_id = 1, getDeclType = ''Material''\<rparr>
       \<lparr>creatorsByTypename = Map.empty, creatorsByType = Map.empty\<rparr> = Inr m'"
    by (simp add: registerDeclType_def)
  then have b: "creatorsByTypename m' ''testdecl'' \<noteq> None"
    by (simp add: registerDeclType_binds)
  show ?thesis
    using r b C10_registerDeclType_twice_fails [OF b] by blast
qed

end
